theory Spec2Isabelle
  imports Complex_Main "HOL-Library.Word" "HOL-Library.Multiset"
begin

section \<open>Data model\<close>

text \<open>
  The three programs \<^verbatim>\<open>cpus.c\<close>, \<^verbatim>\<open>cpu.c\<close> and \<^verbatim>\<open>cpup.c\<close> share the counter record
  \<^verbatim>\<open>cputime_t\<close> (ten \<^verbatim>\<open>uint64_t\<close> fields) and the functions \<^verbatim>\<open>get_total\<close>, \<^verbatim>\<open>get_load\<close>,
  \<^verbatim>\<open>get_idle\<close>, ..., \<^verbatim>\<open>get_diff\<close>, which are textually the same in the three files.
  A \<^verbatim>\<open>uint64_t\<close> is a 64-bit word: addition and subtraction wrap around.
\<close>

type_synonym uint64_t = "64 word"

record cputime_t =
  user :: uint64_t
  nice :: uint64_t
  system :: uint64_t
  idle :: uint64_t
  iowait :: uint64_t
  irq :: uint64_t
  softirq :: uint64_t
  steal :: uint64_t
  guest :: uint64_t
  guest_nice :: uint64_t

text \<open>The result of \<^verbatim>\<open>memset(p, 0, sizeof(cputime_t))\<close>.\<close>

definition zero_cputime :: cputime_t where
  "zero_cputime = \<lparr>user = 0, nice = 0, system = 0, idle = 0, iowait = 0, irq = 0,
     softirq = 0, steal = 0, guest = 0, guest_nice = 0\<rparr>"

section \<open>Aggregator: sums over a counter record\<close>

definition get_total :: "cputime_t \<Rightarrow> uint64_t" where
  "get_total time = user time + nice time + system time
      + idle time + iowait time + irq time + softirq time
      + steal time + guest time + guest_nice time"

definition get_load :: "cputime_t \<Rightarrow> uint64_t" where
  "get_load time = user time + nice time + system time
      + irq time + softirq time
      + steal time + guest time + guest_nice time"

definition get_idle :: "cputime_t \<Rightarrow> uint64_t" where
  "get_idle time = idle time + iowait time"

definition get_iowait :: "cputime_t \<Rightarrow> uint64_t" where
  "get_iowait time = iowait time"

definition get_system :: "cputime_t \<Rightarrow> uint64_t" where
  "get_system time = system time"

definition get_user :: "cputime_t \<Rightarrow> uint64_t" where
  "get_user time = user time + nice time"

definition get_irq :: "cputime_t \<Rightarrow> uint64_t" where
  "get_irq time = irq time + softirq time"

definition get_guest :: "cputime_t \<Rightarrow> uint64_t" where
  "get_guest time = guest time + guest_nice time"

section \<open>Delta engine\<close>

text \<open>
  The macro of \<^verbatim>\<open>get_diff\<close>:
  \<^verbatim>\<open>#define DIFF(x) {tmp = after->x - before->x; diff->x = tmp < 0 ? 0 : tmp;}\<close>
  with \<^verbatim>\<open>uint64_t tmp\<close>. The subtraction is the wrapping one of the 64-bit word, and the
  test \<^verbatim>\<open>tmp < 0\<close> compares an unsigned value with zero, in the order of the words.
\<close>

definition DIFF :: "uint64_t \<Rightarrow> uint64_t \<Rightarrow> uint64_t" where
  "DIFF a b = (let tmp = a - b in if tmp < 0 then 0 else tmp)"

definition get_diff :: "cputime_t \<Rightarrow> cputime_t \<Rightarrow> cputime_t" where
  "get_diff before after =
     \<lparr>user = DIFF (user after) (user before),
      nice = DIFF (nice after) (nice before),
      system = DIFF (system after) (system before),
      idle = DIFF (idle after) (idle before),
      iowait = DIFF (iowait after) (iowait before),
      irq = DIFF (irq after) (irq before),
      softirq = DIFF (softirq after) (softirq before),
      steal = DIFF (steal after) (steal before),
      guest = DIFF (guest after) (guest before),
      guest_nice = DIFF (guest_nice after) (guest_nice before)\<rparr>"

section \<open>Usage percentage\<close>

text \<open>
  The percentage is the C expression \<^verbatim>\<open>(float) load / total * 100\<close>: \<^verbatim>\<open>load\<close> is
  converted to \<^verbatim>\<open>float\<close>, \<^verbatim>\<open>total\<close> and \<^verbatim>\<open>100\<close> are converted to \<^verbatim>\<open>float\<close> by the usual
  arithmetic conversions, and the quotient and the product are rounded to \<^verbatim>\<open>float\<close>.
  The rounding of a real number to the nearest \<^verbatim>\<open>float\<close> is the parameter \<open>rnd\<close> of
  the model. What the theorems need of it is \<open>float_rounding\<close>: it is monotone and the
  numbers 0, 1 and 100 are representable. The identity (exact arithmetic) is one such
  rounding. A division by a zero divisor gives no finite number: the value \<open>None\<close>.
\<close>

definition float_rounding :: "(real \<Rightarrow> real) \<Rightarrow> bool" where
  "float_rounding rnd \<longleftrightarrow> mono rnd \<and> rnd 0 = 0 \<and> rnd 1 = 1 \<and> rnd 100 = 100"

definition usage_percent :: "(real \<Rightarrow> real) \<Rightarrow> uint64_t \<Rightarrow> uint64_t \<Rightarrow> real option" where
  "usage_percent rnd load tot =
     (let l = rnd (real (unat load)); t = rnd (real (unat tot))
      in if t = 0 then None else Some (rnd (rnd (l / t) * rnd 100)))"

text \<open>
  What \<^verbatim>\<open>show_result\<close> prints for the aggregate counters:
  \<^verbatim>\<open>"%5.1f%% (T:%4lu I:%4lu IO:%4lu S:%4lu U:%4lu IRQ:%4lu G:%4lu)"\<close>.
  The record holds the arguments of \<^verbatim>\<open>printf\<close>; the total printed is the one after the
  floor \<^verbatim>\<open>if (total == 0) total = 1\<close>.
\<close>

record report_line =
  r_usage :: "real option"
  r_total :: uint64_t
  r_idle :: uint64_t
  r_iowait :: uint64_t
  r_system :: uint64_t
  r_user :: uint64_t
  r_irq :: uint64_t
  r_guest :: uint64_t

text \<open>
  The first block of \<^verbatim>\<open>show_result\<close>, the same text in \<^verbatim>\<open>cpus.c\<close> (lines 207-222),
  \<^verbatim>\<open>cpu.c\<close> (lines 298-314) and \<^verbatim>\<open>cpup.c\<close> (lines 514-530), on the two aggregate
  records.
\<close>

definition aggregate_line :: "(real \<Rightarrow> real) \<Rightarrow> cputime_t \<Rightarrow> cputime_t \<Rightarrow> report_line" where
  "aggregate_line rnd before after =
     (let diff = get_diff before after;
          total = get_total diff;
          load = get_load diff;
          idle = get_idle diff;
          iowait = get_iowait diff;
          system = get_system diff;
          user = get_user diff;
          irq = get_irq diff;
          guest = get_guest diff;
          total = (if total = 0 then 1 else total);
          usage = usage_percent rnd load total
      in \<lparr>r_usage = usage, r_total = total, r_idle = idle, r_iowait = iowait,
          r_system = system, r_user = user, r_irq = irq, r_guest = guest\<rparr>)"

text \<open>
  The body of the loop over the cores (\<^verbatim>\<open>cpu.c\<close> lines 318-324, \<^verbatim>\<open>cpup.c\<close> lines
  551-557): the percentage of one core.
\<close>

definition core_percent :: "(real \<Rightarrow> real) \<Rightarrow> cputime_t \<Rightarrow> cputime_t \<Rightarrow> real option" where
  "core_percent rnd before after =
     (let diff = get_diff before after;
          total = get_total diff;
          load = get_load diff;
          total = (if total = 0 then 1 else total)
      in usage_percent rnd load total)"

text \<open>\<^verbatim>\<open>show_result\<close> of \<^verbatim>\<open>cpus.c\<close>.\<close>

definition cpus_show_result :: "(real \<Rightarrow> real) \<Rightarrow> cputime_t \<Rightarrow> cputime_t \<Rightarrow> report_line" where
  "cpus_show_result rnd before after = aggregate_line rnd before after"

text \<open>
  \<^verbatim>\<open>cpu_t\<close> of \<^verbatim>\<open>cpu.c\<close>: the number of cores and the array of \<open>num + 1\<close> records that
  \<^verbatim>\<open>new_cpu_t\<close> allocates, the aggregate record at index \<open>num\<close>.
\<close>

record cpu_t =
  num :: nat
  times :: "cputime_t list"

text \<open>\<^verbatim>\<open>show_result\<close> of \<^verbatim>\<open>cpu.c\<close>: the aggregate line, then one percentage for each core.\<close>

definition cpu_show_result :: "(real \<Rightarrow> real) \<Rightarrow> cpu_t \<Rightarrow> cpu_t \<Rightarrow> report_line \<times> real option list" where
  "cpu_show_result rnd before after =
     (let n = num before
      in (aggregate_line rnd (times before ! n) (times after ! n),
          if n > 1
          then map (\<lambda>i. core_percent rnd (times before ! i) (times after ! i)) [0..<n]
          else []))"

text \<open>
  The hypothesis under which the sums of \<^verbatim>\<open>get_total\<close> do not wrap around: the ten
  fields of a record add up to less than \<open>2^64\<close>.
\<close>

definition sum_fits :: "cputime_t \<Rightarrow> bool" where
  "sum_fits d \<longleftrightarrow>
     unat (user d) + unat (nice d) + unat (system d) + unat (idle d) + unat (iowait d)
       + unat (irq d) + unat (softirq d) + unat (steal d) + unat (guest d)
       + unat (guest_nice d) < 2 ^ 64"

text \<open>
  The scenario of the specification: the aggregate counters of two successive samples.
\<close>

definition scenario_before :: cputime_t where
  "scenario_before = \<lparr>user = 100, nice = 0, system = 50, idle = 800, iowait = 20, irq = 5,
     softirq = 0, steal = 0, guest = 0, guest_nice = 0\<rparr>"

definition scenario_after :: cputime_t where
  "scenario_after = \<lparr>user = 120, nice = 0, system = 60, idle = 820, iowait = 20, irq = 5,
     softirq = 0, steal = 0, guest = 0, guest_nice = 0\<rparr>"

section \<open>The C library: lines, scanning\<close>

text \<open>
  Modelled from the spec: \<^verbatim>\<open>def.h\<close> is not among the sources. It declares \<^verbatim>\<open>result_t\<close>
  with the two values \<^verbatim>\<open>SUCCESS\<close> and \<^verbatim>\<open>FAILURE\<close> that the readers return, the macro
  \<^verbatim>\<open>ERR\<close> (a message on the error stream, which the model leaves out) and \<^verbatim>\<open>TRUE\<close>.
\<close>

datatype result_t = SUCCESS | FAILURE

text \<open>
  A stream opened by \<^verbatim>\<open>fopen\<close> is its remaining content, a string; \<^verbatim>\<open>fopen\<close> that
  returns \<^verbatim>\<open>NULL\<close> is \<open>None\<close>. \<^verbatim>\<open>fgets(line, sizeof(line), file)\<close> returns \<^verbatim>\<open>NULL\<close> at
  the end of the stream, and otherwise reads up to \<open>LINE_BUFFER_SIZE - 1\<close> characters,
  stopping after a newline.
\<close>

definition LINE_BUFFER_SIZE :: nat where
  "LINE_BUFFER_SIZE = 1024"

fun fgets_take :: "nat \<Rightarrow> string \<Rightarrow> string \<times> string" where
  "fgets_take n [] = ([], [])"
| "fgets_take n (c # s) =
     (if n = 0 then ([], c # s)
      else if c = CHR 0x0A then ([c], s)
      else (case fgets_take (n - 1) s of (l, r) \<Rightarrow> (c # l, r)))"

definition fgets :: "string \<Rightarrow> (string \<times> string) option" where
  "fgets s = (if s = [] then None else Some (fgets_take (LINE_BUFFER_SIZE - 1) s))"

definition isspace :: "char \<Rightarrow> bool" where
  "isspace c \<longleftrightarrow> c \<in> set [CHR '' '', CHR 0x09, CHR 0x0A, CHR 0x0B, CHR 0x0C, CHR 0x0D]"

definition isdigit :: "char \<Rightarrow> bool" where
  "isdigit c \<longleftrightarrow> (48::nat) \<le> of_char c \<and> (of_char c :: nat) \<le> 57"

definition digit_val :: "char \<Rightarrow> nat" where
  "digit_val c = of_char c - 48"

definition decimal :: "string \<Rightarrow> nat" where
  "decimal ds = foldl (\<lambda>acc c. 10 * acc + digit_val c) 0 ds"

text \<open>
  The numeric conversions of \<^verbatim>\<open>sscanf\<close> (\<^verbatim>\<open>%lu\<close>, \<^verbatim>\<open>%ld\<close>, \<^verbatim>\<open>%*u\<close>, \<^verbatim>\<open>%*d\<close>) skip white
  space, accept one optional sign and need at least one decimal digit. \<open>scan_number\<close>
  returns the sign, the magnitude and the rest of the input. A magnitude that does not
  fit is stored as \<^verbatim>\<open>strtoul\<close> and \<^verbatim>\<open>strtol\<close> return it (the largest or smallest value of
  the type); the C standard leaves that case open.
\<close>

definition scan_number :: "string \<Rightarrow> (bool \<times> nat \<times> string) option" where
  "scan_number s =
     (let s1 = dropWhile isspace s;
          neg = (case s1 of [] \<Rightarrow> False | c # _ \<Rightarrow> c = CHR ''-'');
          s2 = (case s1 of [] \<Rightarrow> s1
                | c # r \<Rightarrow> if c = CHR ''-'' \<or> c = CHR ''+'' then r else s1);
          ds = takeWhile isdigit s2
      in if ds = [] then None else Some (neg, decimal ds, dropWhile isdigit s2))"

definition to_ulong :: "bool \<Rightarrow> nat \<Rightarrow> uint64_t" where
  "to_ulong neg n =
     (if n \<ge> 2 ^ 64 then - 1 else if neg then - of_nat n else of_nat n)"

definition to_long :: "bool \<Rightarrow> nat \<Rightarrow> int" where
  "to_long neg n =
     (let v = (if neg then - int n else int n)
      in if v > 2 ^ 63 - 1 then 2 ^ 63 - 1 else if v < - (2 ^ 63) then - (2 ^ 63) else v)"

text \<open>
  The directives of the format strings of the three programs, and the values that a
  call of \<^verbatim>\<open>sscanf\<close> assigns, in the order of its pointer arguments. \<^verbatim>\<open>sscanf\<close> stops at
  the first directive that fails; its result is the number of values assigned, here the
  length of the list. (Where C returns \<^verbatim>\<open>EOF\<close>, the list is empty: the programs compare
  the result with 4 and with 7 only.)
\<close>

datatype directive = Lit char | Space | Conv_c | Skip_d | Skip_u | Conv_lu | Conv_ld

datatype scanned = Got_c char | Got_lu uint64_t | Got_ld int

fun sscanf :: "string \<Rightarrow> directive list \<Rightarrow> scanned list" where
  "sscanf s [] = []"
| "sscanf s (Lit c # fmt) =
     (case s of [] \<Rightarrow> [] | x # r \<Rightarrow> if x = c then sscanf r fmt else [])"
| "sscanf s (Space # fmt) = sscanf (dropWhile isspace s) fmt"
| "sscanf s (Conv_c # fmt) =
     (case s of [] \<Rightarrow> [] | x # r \<Rightarrow> Got_c x # sscanf r fmt)"
| "sscanf s (Skip_d # fmt) =
     (case scan_number s of None \<Rightarrow> [] | Some (neg, n, r) \<Rightarrow> sscanf r fmt)"
| "sscanf s (Skip_u # fmt) =
     (case scan_number s of None \<Rightarrow> [] | Some (neg, n, r) \<Rightarrow> sscanf r fmt)"
| "sscanf s (Conv_lu # fmt) =
     (case scan_number s of None \<Rightarrow> []
      | Some (neg, n, r) \<Rightarrow> Got_lu (to_ulong neg n) # sscanf r fmt)"
| "sscanf s (Conv_ld # fmt) =
     (case scan_number s of None \<Rightarrow> []
      | Some (neg, n, r) \<Rightarrow> Got_ld (to_long neg n) # sscanf r fmt)"

definition the_c :: "scanned \<Rightarrow> char" where
  "the_c x = (case x of Got_c c \<Rightarrow> c | _ \<Rightarrow> CHR 0x00)"

definition the_lu :: "scanned \<Rightarrow> uint64_t" where
  "the_lu x = (case x of Got_lu v \<Rightarrow> v | _ \<Rightarrow> 0)"

definition the_ld :: "scanned \<Rightarrow> int" where
  "the_ld x = (case x of Got_ld v \<Rightarrow> v | _ \<Rightarrow> 0)"

text \<open>
  The assignment through the pointer arguments: the k-th value goes to the k-th
  argument, and an argument with no value is not written.
\<close>

fun assign :: "(scanned \<Rightarrow> 'r \<Rightarrow> 'r) list \<Rightarrow> scanned list \<Rightarrow> 'r \<Rightarrow> 'r" where
  "assign (f # fs) (v # vs) r = assign fs vs (f v r)"
| "assign fs vs r = r"

section \<open>Reading the aggregate and per-core counters\<close>

text \<open>
  \<^verbatim>\<open>"cpu %lu %lu %lu %lu %lu %lu %lu %lu %lu %lu"\<close> and
  \<^verbatim>\<open>"cpu%*u %lu %lu %lu %lu %lu %lu %lu %lu %lu %lu"\<close>, with the ten pointer arguments
  \<^verbatim>\<open>&work->user\<close>, ..., \<^verbatim>\<open>&work->guest_nice\<close>.
\<close>

definition fmt_cpu :: "directive list" where
  "fmt_cpu = [Lit CHR ''c'', Lit CHR ''p'', Lit CHR ''u'',
     Space, Conv_lu, Space, Conv_lu, Space, Conv_lu, Space, Conv_lu, Space, Conv_lu,
     Space, Conv_lu, Space, Conv_lu, Space, Conv_lu, Space, Conv_lu, Space, Conv_lu]"

definition fmt_core :: "directive list" where
  "fmt_core = [Lit CHR ''c'', Lit CHR ''p'', Lit CHR ''u'', Skip_u,
     Space, Conv_lu, Space, Conv_lu, Space, Conv_lu, Space, Conv_lu, Space, Conv_lu,
     Space, Conv_lu, Space, Conv_lu, Space, Conv_lu, Space, Conv_lu, Space, Conv_lu]"

definition cputime_args :: "(scanned \<Rightarrow> cputime_t \<Rightarrow> cputime_t) list" where
  "cputime_args =
     [\<lambda>x w. w\<lparr>user := the_lu x\<rparr>, \<lambda>x w. w\<lparr>nice := the_lu x\<rparr>,
      \<lambda>x w. w\<lparr>system := the_lu x\<rparr>, \<lambda>x w. w\<lparr>idle := the_lu x\<rparr>,
      \<lambda>x w. w\<lparr>iowait := the_lu x\<rparr>, \<lambda>x w. w\<lparr>irq := the_lu x\<rparr>,
      \<lambda>x w. w\<lparr>softirq := the_lu x\<rparr>, \<lambda>x w. w\<lparr>steal := the_lu x\<rparr>,
      \<lambda>x w. w\<lparr>guest := the_lu x\<rparr>, \<lambda>x w. w\<lparr>guest_nice := the_lu x\<rparr>]"

text \<open>
  \<^verbatim>\<open>read_stat\<close> of \<^verbatim>\<open>cpus.c\<close>. The argument \<open>file\<close> is what \<^verbatim>\<open>fopen("/proc/stat", "rb")\<close>
  gives. Until \<^verbatim>\<open>memset\<close> the record \<^verbatim>\<open>*cpu\<close> is not written; \<^verbatim>\<open>sscanf\<close> writes the
  fields it converts also when they are fewer than four.
\<close>

definition cpus_read_stat :: "string option \<Rightarrow> cputime_t \<Rightarrow> result_t \<times> cputime_t" where
  "cpus_read_stat file cpu =
     (case file of
        None \<Rightarrow> (FAILURE, cpu)
      | Some content \<Rightarrow>
          (case fgets content of
             None \<Rightarrow> (FAILURE, cpu)
           | Some (line, rest) \<Rightarrow>
               (let cpu = zero_cputime;
                    got = sscanf line fmt_cpu;
                    cpu = assign cputime_args got cpu
                in if length got < 4 then (FAILURE, cpu) else (SUCCESS, cpu))))"

text \<open>
  \<^verbatim>\<open>memset(cpu->times, 0, sizeof(cputime_t) * k)\<close>: the first \<open>k\<close> records of the array
  become zero.
\<close>

fun memset_times :: "nat \<Rightarrow> cputime_t list \<Rightarrow> cputime_t list" where
  "memset_times k [] = []"
| "memset_times k (t # ts) =
     (if k = 0 then t # ts else zero_cputime # memset_times (k - 1) ts)"

text \<open>
  The loop over the cores of \<^verbatim>\<open>read_stat\<close> (\<^verbatim>\<open>cpu.c\<close> lines 263-283, \<^verbatim>\<open>cpup.c\<close> lines
  369-389), from the index \<open>i\<close> on: \<open>rest\<close> is what is left of the stream, \<open>ts\<close> the
  array \<^verbatim>\<open>cpu->times\<close>.
\<close>

function read_stat_cores ::
  "nat \<Rightarrow> nat \<Rightarrow> string \<Rightarrow> cputime_t list \<Rightarrow> result_t \<times> cputime_t list" where
  "read_stat_cores i n rest ts =
     (if i < n then
        (case fgets rest of
           None \<Rightarrow> (FAILURE, ts)
         | Some (line, rest') \<Rightarrow>
             (let got = sscanf line fmt_core;
                  ts' = ts[i := assign cputime_args got (ts ! i)]
              in if length got < 4 then (FAILURE, ts')
                 else read_stat_cores (i + 1) n rest' ts'))
      else (SUCCESS, ts))"
  by pat_completeness auto
termination
  by (relation "measure (\<lambda>(i, n, rest, ts). n - i)") auto

text \<open>
  \<^verbatim>\<open>read_stat\<close> of \<^verbatim>\<open>cpu.c\<close> and of \<^verbatim>\<open>cpup.c\<close> on the array \<^verbatim>\<open>cpu->times\<close>, which has
  \<open>n + 1\<close> records for \<open>n\<close> cores. The two functions differ in one place, the number
  of records that \<^verbatim>\<open>memset\<close> clears, the parameter \<open>cleared\<close>:
  \<^verbatim>\<open>sizeof(cputime_t) * (cpu->num + 1)\<close> in \<^verbatim>\<open>cpu.c\<close> (line 245) and
  \<^verbatim>\<open>sizeof(cputime_t) * cpu->cpu_num\<close> in \<^verbatim>\<open>cpup.c\<close> (line 351).
\<close>

definition read_stat_times ::
  "nat \<Rightarrow> string option \<Rightarrow> nat \<Rightarrow> cputime_t list \<Rightarrow> result_t \<times> cputime_t list" where
  "read_stat_times cleared file n ts =
     (case file of
        None \<Rightarrow> (FAILURE, ts)
      | Some content \<Rightarrow>
          (case fgets content of
             None \<Rightarrow> (FAILURE, ts)
           | Some (line, rest) \<Rightarrow>
               (let ts = memset_times cleared ts;
                    got = sscanf line fmt_cpu;
                    ts = ts[n := assign cputime_args got (ts ! n)]
                in if length got < 4 then (FAILURE, ts)
                   else if n > 1 then read_stat_cores 0 n rest ts
                   else (SUCCESS, ts))))"

definition cpu_read_stat :: "string option \<Rightarrow> cpu_t \<Rightarrow> result_t \<times> cpu_t" where
  "cpu_read_stat file cpu =
     (case read_stat_times (num cpu + 1) file (num cpu) (times cpu) of
        (result, ts) \<Rightarrow> (result, cpu\<lparr>times := ts\<rparr>))"

section \<open>Processes\<close>

text \<open>
  \<^verbatim>\<open>process_t\<close> of \<^verbatim>\<open>cpup.c\<close>. The field \<^verbatim>\<open>nice\<close> is \<open>p_nice\<close> here and the field
  \<^verbatim>\<open>times\<close> of the \<^verbatim>\<open>cpu_t\<close> of \<^verbatim>\<open>cpup.c\<close> is \<open>p_times\<close>, the plain names being those
  of \<^verbatim>\<open>cputime_t\<close> and of the \<^verbatim>\<open>cpu_t\<close> of \<^verbatim>\<open>cpu.c\<close>. A \<^verbatim>\<open>pid\<close> is a C \<^verbatim>\<open>int\<close>; \<^verbatim>\<open>comm\<close> is
  the string that the array holds up to its terminating zero.
\<close>

record process_t =
  pid :: int
  comm :: string
  state :: char
  load :: uint64_t
  utime :: uint64_t
  stime :: uint64_t
  cutime :: uint64_t
  cstime :: uint64_t
  priority :: int
  p_nice :: int

text \<open>
  \<^verbatim>\<open>cpu_t\<close> of \<^verbatim>\<open>cpup.c\<close>. The list \<open>procs\<close> holds the \<^verbatim>\<open>proc_num\<close> process records in
  use, in the order of the pointers of the array \<^verbatim>\<open>cpu->procs\<close>; \<^verbatim>\<open>proc_num\<close> is its
  length. The bookkeeping of the allocation (\<^verbatim>\<open>alloc_num\<close>, \<^verbatim>\<open>array_num\<close>) is left out:
  \<^verbatim>\<open>ensure_next_proc\<close> provides the next slot, and \<^verbatim>\<open>xmalloc\<close> and \<^verbatim>\<open>xrealloc\<close> are taken
  to succeed.
\<close>

record cpup_t =
  cpu_num :: nat
  p_times :: "cputime_t list"
  procs :: "process_t list"

definition cpup_read_stat :: "string option \<Rightarrow> cpup_t \<Rightarrow> result_t \<times> cpup_t" where
  "cpup_read_stat file cpu =
     (case read_stat_times (cpu_num cpu) file (cpu_num cpu) (p_times cpu) of
        (result, ts) \<Rightarrow> (result, cpu\<lparr>p_times := ts\<rparr>))"

definition PR_NAME_LEN :: nat where
  "PR_NAME_LEN = 16"

definition DISPLAY_PROCESS_NUM :: nat where
  "DISPLAY_PROCESS_NUM = 10"

text \<open>The result of \<^verbatim>\<open>memset(proc, 0, sizeof(process_t))\<close>.\<close>

definition zero_process :: process_t where
  "zero_process = \<lparr>pid = 0, comm = [], state = CHR 0x00, load = 0, utime = 0, stime = 0,
     cutime = 0, cstime = 0, priority = 0, p_nice = 0\<rparr>"

text \<open>
  A call that the C standard leaves undefined (a null pointer handed to the library, a
  read past the end of a string) is the outcome \<open>Undefined\<close>; on the common C
  libraries the program is killed there.
\<close>

datatype 'a outcome = Undefined | Returns 'a

text \<open>
  \<^verbatim>\<open>strchr\<close> and \<^verbatim>\<open>strrchr\<close>: the index of the first and of the last occurrence of a
  character, \<open>None\<close> for the null pointer.
\<close>

definition strchr :: "string \<Rightarrow> char \<Rightarrow> nat option" where
  "strchr s c = (if c \<in> set s then Some (length (takeWhile (\<lambda>x. x \<noteq> c) s)) else None)"

definition strrchr :: "string \<Rightarrow> char \<Rightarrow> nat option" where
  "strrchr s c =
     (if c \<in> set s then Some (length s - 1 - length (takeWhile (\<lambda>x. x \<noteq> c) (rev s)))
      else None)"

text \<open>
  The format of \<^verbatim>\<open>parse_stat\<close>,
  \<^verbatim>\<open>"%c%*d %*d %*d %*d %*d %*u %*u %*u %*u %*u %lu %lu %lu %lu %ld %ld "\<close>, and its seven
  pointer arguments.
\<close>

definition fmt_stat :: "directive list" where
  "fmt_stat = [Conv_c,
     Skip_d, Space, Skip_d, Space, Skip_d, Space, Skip_d, Space, Skip_d, Space,
     Skip_u, Space, Skip_u, Space, Skip_u, Space, Skip_u, Space, Skip_u, Space,
     Conv_lu, Space, Conv_lu, Space, Conv_lu, Space, Conv_lu, Space,
     Conv_ld, Space, Conv_ld, Space]"

definition process_args :: "(scanned \<Rightarrow> process_t \<Rightarrow> process_t) list" where
  "process_args =
     [\<lambda>x p. p\<lparr>state := the_c x\<rparr>, \<lambda>x p. p\<lparr>utime := the_lu x\<rparr>,
      \<lambda>x p. p\<lparr>stime := the_lu x\<rparr>, \<lambda>x p. p\<lparr>cutime := the_lu x\<rparr>,
      \<lambda>x p. p\<lparr>cstime := the_lu x\<rparr>, \<lambda>x p. p\<lparr>priority := the_ld x\<rparr>,
      \<lambda>x p. p\<lparr>p_nice := the_ld x\<rparr>]"

text \<open>
  \<^verbatim>\<open>parse_stat\<close>. \<open>line1\<close> is the string after the first \<^verbatim>\<open>(\<close>, \<open>len\<close> the index in
  it of the last \<^verbatim>\<open>)\<close> (the pointer \<^verbatim>\<open>tmp\<close>). The source does not test the results of
  \<^verbatim>\<open>strchr\<close> and \<^verbatim>\<open>strrchr\<close>, and \<^verbatim>\<open>tmp + 2\<close> lies past the terminating zero when the
  \<^verbatim>\<open>)\<close> is the last character of the line.
\<close>

definition parse_stat :: "string \<Rightarrow> process_t \<Rightarrow> (result_t \<times> process_t) outcome" where
  "parse_stat line proc =
     (case strchr line CHR ''('' of
        None \<Rightarrow> Undefined
      | Some i \<Rightarrow>
          (let line1 = drop (i + 1) line
           in case strrchr line1 CHR '')'' of
                None \<Rightarrow> Undefined
              | Some len \<Rightarrow>
                  (let len' = (if len \<ge> PR_NAME_LEN then PR_NAME_LEN - 1 else len);
                       proc = proc\<lparr>comm := take len' line1\<rparr>
                   in if length line1 < len + 2 then Undefined
                      else (let got = sscanf (drop (len + 2) line1) fmt_stat;
                                proc = assign process_args got proc
                            in if length got \<noteq> 7 then Returns (FAILURE, proc)
                               else Returns (SUCCESS, proc)))))"

text \<open>
  \<^verbatim>\<open>read_pid_stat\<close>. \<open>stat_of pid\<close> is what \<^verbatim>\<open>fopen\<close> gives for \<^verbatim>\<open>/proc/<pid>/stat\<close>.
  When \<^verbatim>\<open>fopen\<close> returns \<^verbatim>\<open>NULL\<close> the function goes to the label \<^verbatim>\<open>error\<close> and calls
  \<^verbatim>\<open>fclose(file)\<close> with the null pointer (lines 441-444 and 452-453). The previous
  content of \<^verbatim>\<open>*proc\<close> is never read, so the model takes no such argument; the record
  returned with \<^verbatim>\<open>FAILURE\<close> is not counted by the caller.
\<close>

definition read_pid_stat :: "(int \<Rightarrow> string option) \<Rightarrow> int \<Rightarrow> (result_t \<times> process_t) outcome" where
  "read_pid_stat stat_of p =
     (case stat_of p of
        None \<Rightarrow> Undefined
      | Some content \<Rightarrow>
          (case fgets content of
             None \<Rightarrow> Returns (FAILURE, zero_process)
           | Some (line, rest) \<Rightarrow> parse_stat line (zero_process\<lparr>pid := p\<rparr>)))"

text \<open>
  \<^verbatim>\<open>atoi\<close> on a name whose first character is a digit: the value of its leading
  digits. (A value that is no \<^verbatim>\<open>int\<close> is left open by C; process ids are below
  \<open>2^22\<close>.)
\<close>

definition atoi :: "string \<Rightarrow> int" where
  "atoi s = int (decimal (takeWhile isdigit s))"

text \<open>
  The loop of \<^verbatim>\<open>read_process\<close> over the entries that \<^verbatim>\<open>readdir\<close> returns, in their
  order: \<open>ps\<close> are the records counted by \<^verbatim>\<open>proc_num\<close> so far.
\<close>

fun read_process_loop ::
  "(int \<Rightarrow> string option) \<Rightarrow> string list \<Rightarrow> process_t list \<Rightarrow> process_t list outcome" where
  "read_process_loop stat_of [] ps = Returns ps"
| "read_process_loop stat_of (d_name # rest) ps =
     (case d_name of
        [] \<Rightarrow> read_process_loop stat_of rest ps
      | c # cs \<Rightarrow>
          if isdigit c then
            (case read_pid_stat stat_of (atoi d_name) of
               Undefined \<Rightarrow> Undefined
             | Returns (SUCCESS, process) \<Rightarrow> read_process_loop stat_of rest (ps @ [process])
             | Returns (FAILURE, process) \<Rightarrow> read_process_loop stat_of rest ps)
          else read_process_loop stat_of rest ps)"

text \<open>
  The comparison functions. \<^verbatim>\<open>comp_pid\<close> subtracts two \<^verbatim>\<open>int\<close>; \<^verbatim>\<open>comp_load\<close> subtracts
  two \<^verbatim>\<open>uint64_t\<close> and returns the difference as an \<^verbatim>\<open>int\<close>, which keeps its low 32 bits.
\<close>

definition comp_pid :: "process_t \<Rightarrow> process_t \<Rightarrow> int" where
  "comp_pid a b = sint (word_of_int (pid a - pid b) :: 32 word)"

definition comp_load :: "process_t \<Rightarrow> process_t \<Rightarrow> int" where
  "comp_load a b = sint (ucast (load b - load a) :: 32 word)"

text \<open>
  \<^verbatim>\<open>qsort\<close> belongs to the C library. The functions that call it take it as the
  parameter \<open>qsort\<close>, and \<open>qsort_spec\<close> is what the C standard promises of a call: the
  array holds the same elements, in ascending order of the comparison function. The
  order of elements that compare equal is not specified.
\<close>

type_synonym qsort_t = "(process_t \<Rightarrow> process_t \<Rightarrow> int) \<Rightarrow> process_t list \<Rightarrow> process_t list"

definition qsort_spec :: "qsort_t \<Rightarrow> (process_t \<Rightarrow> process_t \<Rightarrow> int) \<Rightarrow> process_t list \<Rightarrow> bool" where
  "qsort_spec qsort cmp xs \<longleftrightarrow>
     mset (qsort cmp xs) = mset xs \<and> sorted_wrt (\<lambda>a b. cmp a b \<le> 0) (qsort cmp xs)"

text \<open>One sorting function, by insertion, to run the model on examples.\<close>

fun insert_by :: "(process_t \<Rightarrow> process_t \<Rightarrow> int) \<Rightarrow> process_t \<Rightarrow> process_t list \<Rightarrow> process_t list" where
  "insert_by cmp x [] = [x]"
| "insert_by cmp x (y # ys) = (if cmp x y \<le> 0 then x # y # ys else y # insert_by cmp x ys)"

definition insertion_qsort :: qsort_t where
  "insertion_qsort cmp xs = foldr (insert_by cmp) xs []"

text \<open>
  The file system that \<^verbatim>\<open>cpup.c\<close> reads in one cycle: \<^verbatim>\<open>/proc/stat\<close>, the names that
  \<^verbatim>\<open>readdir\<close> returns for \<^verbatim>\<open>/proc\<close> (\<open>None\<close> when \<^verbatim>\<open>opendir\<close> fails) and
  \<^verbatim>\<open>/proc/<pid>/stat\<close> for each process id.
\<close>

record procfs =
  stat_file :: "string option"
  proc_dir :: "string list option"
  pid_stat_file :: "int \<Rightarrow> string option"

definition read_process :: "qsort_t \<Rightarrow> procfs \<Rightarrow> cpup_t \<Rightarrow> (result_t \<times> cpup_t) outcome" where
  "read_process qsort fs cpu =
     (let cpu = cpu\<lparr>procs := []\<rparr>
      in case proc_dir fs of
           None \<Rightarrow> Returns (FAILURE, cpu)
         | Some names \<Rightarrow>
             (case read_process_loop (pid_stat_file fs) names [] of
                Undefined \<Rightarrow> Undefined
              | Returns ps \<Rightarrow> Returns (SUCCESS, cpu\<lparr>procs := qsort comp_pid ps\<rparr>)))"

section \<open>Process ranking\<close>

text \<open>
  The first loop of \<^verbatim>\<open>show_result_process\<close> (lines 573-585). The first argument is
  the part of \<^verbatim>\<open>before->procs\<close> from the cursor \<^verbatim>\<open>j\<close> on, the second the part of
  \<^verbatim>\<open>after->procs\<close> from \<^verbatim>\<open>i\<close> on; the result is \<^verbatim>\<open>list\<close>, the processes of \<^verbatim>\<open>after\<close> with
  their field \<^verbatim>\<open>load\<close> set. The subtraction \<^verbatim>\<open>a->load -= (b->utime + b->stime)\<close> is that
  of \<^verbatim>\<open>uint64_t\<close>.
\<close>

fun process_loads :: "process_t list \<Rightarrow> process_t list \<Rightarrow> process_t list" where
  "process_loads bs [] = []"
| "process_loads bs (a # as) =
     (let a = a\<lparr>load := utime a + stime a\<rparr>;
          bs = dropWhile (\<lambda>b. pid b < pid a) bs;
          a = (case bs of
                 [] \<Rightarrow> a
               | b # _ \<Rightarrow> if pid a = pid b then a\<lparr>load := load a - (utime b + stime b)\<rparr> else a)
      in a # process_loads bs as)"

text \<open>
  One row of the process table: the arguments of
  \<^verbatim>\<open>printf("%5d %s %3ld %c %5.1f%% %4lu %s\n", ...)\<close>. The priority column is the text
  \<^verbatim>\<open>" rt"\<close> or the number.
\<close>

datatype prio_text = Realtime | Numeric int

record process_row =
  row_pid :: int
  row_prio :: prio_text
  row_nice :: int
  row_state :: char
  row_usage :: "real option"
  row_load :: uint64_t
  row_comm :: string

definition show_process :: "(real \<Rightarrow> real) \<Rightarrow> uint64_t \<Rightarrow> process_t \<Rightarrow> process_row" where
  "show_process rnd tot p =
     \<lparr>row_pid = pid p,
      row_prio = (if priority p > 999 \<or> priority p < - 99 then Realtime
                  else Numeric (priority p)),
      row_nice = p_nice p,
      row_state = state p,
      row_usage = usage_percent rnd (load p) tot,
      row_load = load p,
      row_comm = comm p\<rparr>"

text \<open>
  \<^verbatim>\<open>show_result_process\<close>: the number printed in the line \<^verbatim>\<open>"%d processes"\<close> and the
  rows. The loads are written into the records of \<^verbatim>\<open>after\<close>, which reads them nowhere
  else.
\<close>

definition show_result_process ::
  "qsort_t \<Rightarrow> (real \<Rightarrow> real) \<Rightarrow> uint64_t \<Rightarrow> cpup_t \<Rightarrow> cpup_t \<Rightarrow> nat \<times> process_row list" where
  "show_result_process qsort rnd tot before after =
     (let n = length (procs after);
          list = process_loads (procs before) (procs after);
          list = qsort comp_load list;
          display = (if n < DISPLAY_PROCESS_NUM then n else DISPLAY_PROCESS_NUM)
      in (n, map (show_process rnd tot) (take display list)))"

definition show_result_cpus :: "(real \<Rightarrow> real) \<Rightarrow> cpup_t \<Rightarrow> cpup_t \<Rightarrow> real option list" where
  "show_result_cpus rnd before after =
     map (\<lambda>i. core_percent rnd (p_times before ! i) (p_times after ! i)) [0..<cpu_num before]"

text \<open>
  \<^verbatim>\<open>show_result\<close> of \<^verbatim>\<open>cpup.c\<close>: the aggregate line, the percentages of the cores, and
  the process table, for which \<^verbatim>\<open>show_result_process\<close> receives the variable \<^verbatim>\<open>total\<close>
  as it is after the floor, the value printed after \<^verbatim>\<open>T:\<close>.
\<close>

definition cpup_show_result ::
  "qsort_t \<Rightarrow> (real \<Rightarrow> real) \<Rightarrow> cpup_t \<Rightarrow> cpup_t
     \<Rightarrow> report_line \<times> real option list \<times> nat \<times> process_row list" where
  "cpup_show_result qsort rnd before after =
     (let n = cpu_num before;
          line = aggregate_line rnd (p_times before ! n) (p_times after ! n)
      in (line,
          if n > 1 then show_result_cpus rnd before after else [],
          show_result_process qsort rnd (r_total line) before after))"

section \<open>The main loops\<close>

text \<open>
  A run is observed for as many reads of the counter source as the list given to the
  model has elements: each element is the source as the read of that cycle finds it.
  The result is what the run has printed and its status: the exit status of \<^verbatim>\<open>main\<close>,
  or \<open>Running\<close> when the program is still in its loop after the last read of the list.
  The title line is left out.
\<close>

datatype status = Running | Exited int | Killed

definition EXIT_FAILURE :: int where
  "EXIT_FAILURE = 1"

text \<open>
  \<^verbatim>\<open>main\<close> of \<^verbatim>\<open>cpus.c\<close> (lines 225-236). The result of \<^verbatim>\<open>read_stat\<close> is not used. The
  two records are local variables without initial values, the parameters \<open>before\<close> and
  \<open>after\<close>.
\<close>

fun cpus_loop ::
  "(real \<Rightarrow> real) \<Rightarrow> cputime_t \<Rightarrow> cputime_t \<Rightarrow> string option list \<Rightarrow> report_line list \<times> status" where
  "cpus_loop rnd before after [] = ([], Running)"
| "cpus_loop rnd before after (file # files) =
     (let after = snd (cpus_read_stat file after)
      in case cpus_loop rnd after after files of
           (out, st) \<Rightarrow> (cpus_show_result rnd before after # out, st))"

definition cpus_main ::
  "(real \<Rightarrow> real) \<Rightarrow> cputime_t \<Rightarrow> cputime_t \<Rightarrow> string option list \<Rightarrow> report_line list \<times> status" where
  "cpus_main rnd before after files =
     (case files of
        [] \<Rightarrow> ([], Running)
      | file # files \<Rightarrow> cpus_loop rnd (snd (cpus_read_stat file before)) after files)"

text \<open>
  \<^verbatim>\<open>main\<close> of \<^verbatim>\<open>cpu.c\<close> (lines 346-370); \<open>before\<close> and \<open>after\<close> are the two structures
  that \<^verbatim>\<open>new_cpu_t\<close> returns. \<^verbatim>\<open>SWAP\<close> exchanges the two pointers.
\<close>

fun cpu_loop ::
  "(real \<Rightarrow> real) \<Rightarrow> cpu_t \<Rightarrow> cpu_t \<Rightarrow> string option list
     \<Rightarrow> (report_line \<times> real option list) list \<times> status" where
  "cpu_loop rnd before after [] = ([], Running)"
| "cpu_loop rnd before after (file # files) =
     (case cpu_read_stat file after of
        (FAILURE, after) \<Rightarrow> ([], Exited EXIT_FAILURE)
      | (SUCCESS, after) \<Rightarrow>
          (case cpu_loop rnd after before files of
             (out, st) \<Rightarrow> (cpu_show_result rnd before after # out, st)))"

definition cpu_main ::
  "(real \<Rightarrow> real) \<Rightarrow> cpu_t \<Rightarrow> cpu_t \<Rightarrow> string option list
     \<Rightarrow> (report_line \<times> real option list) list \<times> status" where
  "cpu_main rnd before after files =
     (case files of
        [] \<Rightarrow> ([], Running)
      | file # files \<Rightarrow>
          (case cpu_read_stat file before of
             (FAILURE, before) \<Rightarrow> ([], Exited EXIT_FAILURE)
           | (SUCCESS, before) \<Rightarrow> cpu_loop rnd before after files))"

text \<open>
  \<^verbatim>\<open>main\<close> of \<^verbatim>\<open>cpup.c\<close> (lines 610-635). \<open>cpup_read\<close> is the condition
  \<^verbatim>\<open>read_stat(x) != SUCCESS || read_process(x) != SUCCESS\<close>, which calls \<^verbatim>\<open>read_process\<close>
  only after a successful \<^verbatim>\<open>read_stat\<close>.
\<close>

definition cpup_read :: "qsort_t \<Rightarrow> procfs \<Rightarrow> cpup_t \<Rightarrow> (result_t \<times> cpup_t) outcome" where
  "cpup_read qsort fs cpu =
     (case cpup_read_stat (stat_file fs) cpu of
        (FAILURE, cpu) \<Rightarrow> Returns (FAILURE, cpu)
      | (SUCCESS, cpu) \<Rightarrow> read_process qsort fs cpu)"

fun cpup_loop ::
  "qsort_t \<Rightarrow> (real \<Rightarrow> real) \<Rightarrow> cpup_t \<Rightarrow> cpup_t \<Rightarrow> procfs list
     \<Rightarrow> (report_line \<times> real option list \<times> nat \<times> process_row list) list \<times> status" where
  "cpup_loop qsort rnd before after [] = ([], Running)"
| "cpup_loop qsort rnd before after (fs # rest) =
     (case cpup_read qsort fs after of
        Undefined \<Rightarrow> ([], Killed)
      | Returns (FAILURE, after) \<Rightarrow> ([], Exited EXIT_FAILURE)
      | Returns (SUCCESS, after) \<Rightarrow>
          (case cpup_loop qsort rnd after before rest of
             (out, st) \<Rightarrow> (cpup_show_result qsort rnd before after # out, st)))"

definition cpup_main ::
  "qsort_t \<Rightarrow> (real \<Rightarrow> real) \<Rightarrow> cpup_t \<Rightarrow> cpup_t \<Rightarrow> procfs list
     \<Rightarrow> (report_line \<times> real option list \<times> nat \<times> process_row list) list \<times> status" where
  "cpup_main qsort rnd before after sources =
     (case sources of
        [] \<Rightarrow> ([], Running)
      | fs # rest \<Rightarrow>
          (case cpup_read qsort fs before of
             Undefined \<Rightarrow> ([], Killed)
           | Returns (FAILURE, before) \<Rightarrow> ([], Exited EXIT_FAILURE)
           | Returns (SUCCESS, before) \<Rightarrow> cpup_loop qsort rnd before after rest))"

section \<open>The loads of the claim, and examples\<close>

text \<open>
  The load that the specification states for a process \<open>a\<close> of the later snapshot,
  given the processes \<open>bs\<close> of the earlier one, with the subtraction of \<^verbatim>\<open>uint64_t\<close>:
  the sum \<^verbatim>\<open>utime + stime\<close> when no process of \<open>bs\<close> has the process id of \<open>a\<close>, and
  else the difference of the two sums. This second definition follows the words of the
  specification; \<open>process_loads\<close> above is the loop of the source.
\<close>

definition spec_load :: "process_t list \<Rightarrow> process_t \<Rightarrow> uint64_t" where
  "spec_load bs a =
     (case find (\<lambda>b. pid b = pid a) bs of
        None \<Rightarrow> utime a + stime a
      | Some b \<Rightarrow> (utime a + stime a) - (utime b + stime b))"

text \<open>Examples: processes, snapshots, a process file system, a record with old content.\<close>

definition mk_process :: "int \<Rightarrow> uint64_t \<Rightarrow> uint64_t \<Rightarrow> process_t" where
  "mk_process p u s = zero_process\<lparr>pid := p, utime := u, stime := s\<rparr>"

definition snapshot :: "process_t list \<Rightarrow> cpup_t" where
  "snapshot ps = \<lparr>cpu_num = 1, p_times = [zero_cputime, zero_cputime], procs = ps\<rparr>"

definition example_procfs :: procfs where
  "example_procfs =
     \<lparr>stat_file = Some ''cpu 120 0 60 820 20 5 0 0 0 0
cpu0 120 0 60 820 20 5 0 0 0 0
'',
      proc_dir = Some [''30'', ''self'', ''7''],
      pid_stat_file = (\<lambda>p.
        if p = 30 then Some ''30 (sh) S 1 30 30 0 -1 4194560 100 0 0 0 3 4 0 0 20 0 1
''
        else if p = 7 then Some ''7 (kworker/0:1) I 2 0 0 0 -1 69238880 0 0 0 0 0 1 0 0 0 -20 1
''
        else None)\<rparr>"

definition example_processes :: "process_t list" where
  "example_processes =
     [\<lparr>pid = 7, comm = ''kworker/0:1'', state = CHR ''I'', load = 0, utime = 0, stime = 1,
        cutime = 0, cstime = 0, priority = 0, p_nice = - 20\<rparr>,
      \<lparr>pid = 30, comm = ''sh'', state = CHR ''S'', load = 0, utime = 3, stime = 4,
        cutime = 0, cstime = 0, priority = 20, p_nice = 0\<rparr>]"

definition stale_cputime :: cputime_t where
  "stale_cputime = \<lparr>user = 7, nice = 7, system = 7, idle = 7, iowait = 7, irq = 7,
     softirq = 7, steal = 7, guest = 7, guest_nice = 7\<rparr>"

text \<open>
  Two snapshots in which the counters of process 10 decrease (the sum 5, then 3) and
  process 11 is new.
\<close>

definition wrapped_before :: cpup_t where
  "wrapped_before = snapshot [mk_process 10 5 0]"

definition wrapped_after :: cpup_t where
  "wrapped_after = snapshot [mk_process 10 3 0, mk_process 11 4 0]"

section \<open>Properties of the delta engine and the sums\<close>

lemma DIFF_wraps: "DIFF a b = a - b"
  by (simp add: DIFF_def Let_def)

lemma DIFF_exact: "b \<le> a \<Longrightarrow> unat (DIFF a b) = unat a - unat b"
  by (simp add: DIFF_wraps unat_sub)

lemma get_diff_fields:
  "user (get_diff b a) = user a - user b"
  "nice (get_diff b a) = nice a - nice b"
  "system (get_diff b a) = system a - system b"
  "idle (get_diff b a) = idle a - idle b"
  "iowait (get_diff b a) = iowait a - iowait b"
  "irq (get_diff b a) = irq a - irq b"
  "softirq (get_diff b a) = softirq a - softirq b"
  "steal (get_diff b a) = steal a - steal b"
  "guest (get_diff b a) = guest a - guest b"
  "guest_nice (get_diff b a) = guest_nice a - guest_nice b"
  by (simp_all add: get_diff_def DIFF_wraps)

lemma get_diff_from_zero: "get_diff zero_cputime d = d"
  by (simp add: get_diff_def DIFF_wraps zero_cputime_def)

text \<open>
  Claim C1 (delta clamp law). The claim: a field that decreases between the two samples
  gives a Delta field of 0, never a wrapped-around value. The comment of \<^verbatim>\<open>get_diff\<close>
  says the same (a negative value becomes 0), but the test \<^verbatim>\<open>tmp < 0\<close> is made on an
  unsigned value and never holds. At \<^verbatim>\<open>before.user = 5\<close>, \<^verbatim>\<open>after.user = 3\<close> (every other
  counter 0 in both samples) the code yields \<open>2^64 - 2\<close> in the field \<^verbatim>\<open>user\<close>, where the
  claim says 0.
\<close>

theorem get_diff_decrease_wraps:
  "user (zero_cputime\<lparr>user := 3\<rparr>) < user (zero_cputime\<lparr>user := 5\<rparr>) \<and>
   user (get_diff (zero_cputime\<lparr>user := 5\<rparr>) (zero_cputime\<lparr>user := 3\<rparr>))
     = 18446744073709551614 \<and>
   user (get_diff (zero_cputime\<lparr>user := 5\<rparr>) (zero_cputime\<lparr>user := 3\<rparr>)) \<noteq> 0"
  by (simp add: get_diff_def DIFF_def zero_cputime_def)

text \<open>
  Claim C4 (total/load identity). \<^verbatim>\<open>get_total\<close> is the sum of the ten fields,
  \<^verbatim>\<open>get_load\<close> the sum of the eight fields other than \<^verbatim>\<open>idle\<close> and \<^verbatim>\<open>iowait\<close>, and
  the total is the load plus \<^verbatim>\<open>idle\<close> plus \<^verbatim>\<open>iowait\<close>, for every counter record (the sums
  are those of 64-bit unsigned arithmetic).
\<close>

theorem total_load_identity:
  "get_total d = user d + nice d + system d + idle d + iowait d + irq d + softirq d
                 + steal d + guest d + guest_nice d \<and>
   get_load d = user d + nice d + system d + irq d + softirq d
                 + steal d + guest d + guest_nice d \<and>
   get_total d = get_load d + idle d + iowait d"
  by (simp add: get_total_def get_load_def)

section \<open>The usage percentage and the zero-division floor\<close>

lemma unat_total:
  assumes "sum_fits d"
  shows "unat (get_total d) = unat (user d) + unat (nice d) + unat (system d) + unat (idle d)
       + unat (iowait d) + unat (irq d) + unat (softirq d) + unat (steal d) + unat (guest d)
       + unat (guest_nice d)"
proof -
  have "unat (get_total d) = (unat (user d) + unat (nice d) + unat (system d) + unat (idle d)
       + unat (iowait d) + unat (irq d) + unat (softirq d) + unat (steal d) + unat (guest d)
       + unat (guest_nice d)) mod 2 ^ 64"
    unfolding get_total_def by (simp add: unat_word_ariths mod_simps)
  with assms show ?thesis by (simp add: sum_fits_def)
qed

lemma unat_load:
  assumes "sum_fits d"
  shows "unat (get_load d) = unat (user d) + unat (nice d) + unat (system d)
       + unat (irq d) + unat (softirq d) + unat (steal d) + unat (guest d)
       + unat (guest_nice d)"
proof -
  have "unat (get_load d) = (unat (user d) + unat (nice d) + unat (system d)
       + unat (irq d) + unat (softirq d) + unat (steal d) + unat (guest d)
       + unat (guest_nice d)) mod 2 ^ 64"
    unfolding get_load_def by (simp add: unat_word_ariths mod_simps)
  moreover from assms have "unat (user d) + unat (nice d) + unat (system d)
       + unat (irq d) + unat (softirq d) + unat (steal d) + unat (guest d)
       + unat (guest_nice d) < 2 ^ 64" by (simp add: sum_fits_def)
  ultimately show ?thesis by simp
qed

lemma load_le_total: "sum_fits d \<Longrightarrow> unat (get_load d) \<le> unat (get_total d)"
  by (simp add: unat_total unat_load)

lemma total_zero_load_zero: "sum_fits d \<Longrightarrow> get_total d = 0 \<Longrightarrow> get_load d = 0"
proof -
  assume a: "sum_fits d" "get_total d = 0"
  then have "unat (get_total d) = 0" by simp
  with load_le_total[OF a(1)] have "unat (get_load d) = 0" by simp
  then show ?thesis by (simp add: unat_eq_0)
qed

lemma usage_percent_zero:
  "float_rounding rnd \<Longrightarrow> usage_percent rnd 0 1 = Some 0"
  by (simp add: usage_percent_def float_rounding_def)

lemma usage_percent_range:
  assumes r: "float_rounding rnd" and le: "unat ld \<le> unat tot" and nz: "tot \<noteq> 0"
  shows "\<exists>u. usage_percent rnd ld tot = Some u \<and> 0 \<le> u \<and> u \<le> 100"
proof -
  from r have m: "mono rnd" and r0: "rnd 0 = 0" and r1: "rnd 1 = 1" and r100: "rnd 100 = 100"
    by (simp_all add: float_rounding_def)
  define l where "l = rnd (real (unat ld))"
  define t where "t = rnd (real (unat tot))"
  from nz have "(1::nat) \<le> unat tot" by (simp add: Suc_le_eq unat_gt_0)
  then have "(1::real) \<le> real (unat tot)" by linarith
  then have "rnd 1 \<le> t" unfolding t_def by (rule monoD[OF m])
  then have t1: "1 \<le> t" by (simp add: r1)
  have "(0::real) \<le> real (unat ld)" by linarith
  then have "rnd 0 \<le> l" unfolding l_def by (rule monoD[OF m])
  then have l0: "0 \<le> l" by (simp add: r0)
  from le have "real (unat ld) \<le> real (unat tot)" by linarith
  then have lt: "l \<le> t" unfolding l_def t_def by (rule monoD[OF m])
  have q0: "0 \<le> l / t" using l0 t1 by simp
  have q1: "l / t \<le> 1" using lt t1 by simp
  have "rnd 0 \<le> rnd (l / t)" by (rule monoD[OF m q0])
  then have p0: "0 \<le> rnd (l / t)" by (simp add: r0)
  have "rnd (l / t) \<le> rnd 1" by (rule monoD[OF m q1])
  then have p1: "rnd (l / t) \<le> 1" by (simp add: r1)
  have "rnd 0 \<le> rnd (rnd (l / t) * 100)" using p0 by (intro monoD[OF m]) simp
  then have u0: "0 \<le> rnd (rnd (l / t) * 100)" by (simp add: r0)
  have "rnd (rnd (l / t) * 100) \<le> rnd 100" using p1 by (intro monoD[OF m]) simp
  then have u1: "rnd (rnd (l / t) * 100) \<le> 100" by (simp add: r100)
  from t1 have "t \<noteq> 0" by simp
  then have "usage_percent rnd ld tot = Some (rnd (rnd (l / t) * 100))"
    by (simp add: usage_percent_def Let_def l_def t_def r100)
  with u0 u1 show ?thesis by simp
qed

lemma aggregate_line_floor:
  assumes r: "float_rounding rnd" and f: "sum_fits (get_diff before after)"
  shows "(get_total (get_diff before after) = 0 \<longrightarrow>
            r_total (aggregate_line rnd before after) = 1 \<and>
            r_usage (aggregate_line rnd before after) = Some 0) \<and>
         (get_total (get_diff before after) \<noteq> 0 \<longrightarrow>
            r_total (aggregate_line rnd before after) = get_total (get_diff before after) \<and>
            (\<exists>u. r_usage (aggregate_line rnd before after) = Some u \<and> 0 \<le> u \<and> u \<le> 100))"
proof (cases "get_total (get_diff before after) = 0")
  case True
  with f have "get_load (get_diff before after) = 0" by (simp add: total_zero_load_zero)
  with True r show ?thesis by (simp add: aggregate_line_def Let_def usage_percent_zero)
next
  case False
  with usage_percent_range[OF r load_le_total[OF f] False]
  show ?thesis by (simp add: aggregate_line_def Let_def)
qed

lemma core_percent_floor:
  assumes r: "float_rounding rnd" and f: "sum_fits (get_diff before after)"
  shows "(get_total (get_diff before after) = 0 \<longrightarrow> core_percent rnd before after = Some 0) \<and>
         (get_total (get_diff before after) \<noteq> 0 \<longrightarrow>
            (\<exists>u. core_percent rnd before after = Some u \<and> 0 \<le> u \<and> u \<le> 100))"
proof (cases "get_total (get_diff before after) = 0")
  case True
  with f have "get_load (get_diff before after) = 0" by (simp add: total_zero_load_zero)
  with True r show ?thesis by (simp add: core_percent_def Let_def usage_percent_zero)
next
  case False
  with usage_percent_range[OF r load_le_total[OF f] False]
  show ?thesis by (simp add: core_percent_def Let_def)
qed

lemma float_rounding_id: "float_rounding (\<lambda>x. x)"
  by (simp add: float_rounding_def mono_def)

lemma cpu_show_result_floor:
  assumes "float_rounding rnd"
    and "sum_fits (get_diff (times before ! num before) (times after ! num before))"
  shows "1 \<le> unat (r_total (fst (cpu_show_result rnd before after))) \<and>
         (\<exists>u. r_usage (fst (cpu_show_result rnd before after)) = Some u \<and> 0 \<le> u \<and> u \<le> 100)"
proof -
  let ?d = "get_diff (times before ! num before) (times after ! num before)"
  have l: "fst (cpu_show_result rnd before after)
           = aggregate_line rnd (times before ! num before) (times after ! num before)"
    by (simp add: cpu_show_result_def Let_def)
  show ?thesis
  proof (cases "get_total ?d = 0")
    case True
    with aggregate_line_floor [OF assms] show ?thesis by (simp add: l)
  next
    case False
    then have "1 \<le> unat (get_total ?d)" by (simp add: Suc_le_eq unat_gt_0)
    with False aggregate_line_floor [OF assms] show ?thesis by (simp add: l)
  qed
qed

text \<open>
  Claim C5 (zero-division floor of the aggregator), as amended. The claim as it is
  written speaks of every Delta; it fails where the 64-bit sums of \<^verbatim>\<open>get_total\<close> wrap
  around (the counterexample follows the theorem). For every Delta whose ten fields add up
  to less than \<open>2^64\<close>, and every rounding to \<^verbatim>\<open>float\<close>: when the total is 0 the
  denominator is 1 and the percentage is 0; when the total is not 0 the denominator is
  the total and the percentage lies between 0 and 100.
\<close>

theorem usage_floor_and_range:
  assumes "float_rounding rnd" and "sum_fits (get_diff before after)"
  shows "(get_total (get_diff before after) = 0 \<longrightarrow>
            r_total (cpus_show_result rnd before after) = 1 \<and>
            r_usage (cpus_show_result rnd before after) = Some 0) \<and>
         (get_total (get_diff before after) \<noteq> 0 \<longrightarrow>
            r_total (cpus_show_result rnd before after) = get_total (get_diff before after) \<and>
            (\<exists>u. r_usage (cpus_show_result rnd before after) = Some u \<and> 0 \<le> u \<and> u \<le> 100))"
  unfolding cpus_show_result_def using assms by (rule aggregate_line_floor)

theorem usage_floor_and_range_witness:
  "float_rounding (\<lambda>x. x) \<and>
   sum_fits (get_diff scenario_before scenario_after) \<and>
   get_total (get_diff scenario_before scenario_after) = 50 \<and>
   (\<exists>u. r_usage (cpus_show_result (\<lambda>x. x) scenario_before scenario_after) = Some u
        \<and> 0 \<le> u \<and> u \<le> 100) \<and>
   sum_fits (get_diff scenario_after scenario_after) \<and>
   get_total (get_diff scenario_after scenario_after) = 0 \<and>
   r_total (cpus_show_result (\<lambda>x. x) scenario_after scenario_after) = 1 \<and>
   r_usage (cpus_show_result (\<lambda>x. x) scenario_after scenario_after) = Some 0"
proof -
  have f1: "sum_fits (get_diff scenario_before scenario_after)"
    by (simp add: sum_fits_def get_diff_fields scenario_before_def scenario_after_def)
  have f2: "sum_fits (get_diff scenario_after scenario_after)"
    by (simp add: sum_fits_def get_diff_fields)
  have t1: "get_total (get_diff scenario_before scenario_after) = 50"
    by (simp add: get_total_def get_diff_fields scenario_before_def scenario_after_def)
  have t2: "get_total (get_diff scenario_after scenario_after) = 0"
    by (simp add: get_total_def get_diff_fields)
  from usage_floor_and_range [OF float_rounding_id f1] usage_floor_and_range [OF float_rounding_id f2]
    f1 f2 t1 t2 float_rounding_id
  show ?thesis by simp
qed

text \<open>The scenario of the specification: a usage of 60 percent.\<close>

lemma scenario_usage:
  "r_usage (cpus_show_result (\<lambda>x. x) scenario_before scenario_after) = Some 60"
  by (simp add: cpus_show_result_def aggregate_line_def usage_percent_def get_total_def
      get_load_def get_diff_fields scenario_before_def scenario_after_def Let_def)

text \<open>
  The claim C5 as written fails on a Delta whose sum wraps around. With \<^verbatim>\<open>user = 1\<close>
  and \<^verbatim>\<open>idle = 2^64 - 1\<close> the total is 0, the denominator becomes 1 and the percentage
  is 100, not 0. With \<^verbatim>\<open>user = 2\<close> and \<^verbatim>\<open>idle = 2^64 - 1\<close> the total is 1 and the
  percentage is 200. (Such a Delta is what \<^verbatim>\<open>get_diff\<close> returns when \<^verbatim>\<open>idle\<close> decreases
  by one between two samples.)
\<close>

theorem wrapped_total_counterexample:
  "get_total (get_diff zero_cputime (zero_cputime\<lparr>user := 1, idle := 18446744073709551615\<rparr>)) = 0 \<and>
   r_usage (cpus_show_result (\<lambda>x. x) zero_cputime
              (zero_cputime\<lparr>user := 1, idle := 18446744073709551615\<rparr>)) = Some 100 \<and>
   get_total (get_diff zero_cputime (zero_cputime\<lparr>user := 2, idle := 18446744073709551615\<rparr>)) = 1 \<and>
   r_usage (cpus_show_result (\<lambda>x. x) zero_cputime
              (zero_cputime\<lparr>user := 2, idle := 18446744073709551615\<rparr>)) = Some 200"
  by (simp add: cpus_show_result_def aggregate_line_def usage_percent_def get_total_def
      get_load_def get_diff_fields zero_cputime_def Let_def)

section \<open>The loads of the processes\<close>

lemma find_dropWhile_disjoint:
  "(\<And>b. b \<in> set bs \<Longrightarrow> P b \<Longrightarrow> \<not> Q b) \<Longrightarrow> find Q (dropWhile P bs) = find Q bs"
  by (induction bs) auto

lemma sorted_dropWhile_pid:
  "sorted (map pid bs) \<Longrightarrow> sorted (map pid (dropWhile P bs))"
  by (induction bs) auto

lemma find_none_above:
  assumes "sorted (map pid (b # bs))" and "k < pid b"
  shows "find (\<lambda>x. pid x = k) (b # bs) = None"
proof -
  from assms have "\<forall>x \<in> set (b # bs). k < pid x" by auto
  then show ?thesis by (auto simp: find_None_iff)
qed

lemma process_loads_step:
  assumes "sorted (map pid bs)"
  shows "(let a1 = a\<lparr>load := utime a + stime a\<rparr>;
              bs' = dropWhile (\<lambda>b. pid b < pid a1) bs
          in case bs' of [] \<Rightarrow> a1
             | b # _ \<Rightarrow> if pid a1 = pid b then a1\<lparr>load := load a1 - (utime b + stime b)\<rparr> else a1)
         = a\<lparr>load := spec_load bs a\<rparr>"
proof -
  let ?bs' = "dropWhile (\<lambda>b. pid b < pid a) bs"
  have f: "find (\<lambda>b. pid b = pid a) ?bs' = find (\<lambda>b. pid b = pid a) bs"
    by (rule find_dropWhile_disjoint) auto
  have s: "sorted (map pid ?bs')" using assms by (rule sorted_dropWhile_pid)
  show ?thesis
  proof (cases ?bs')
    case Nil
    with f have n: "find (\<lambda>b. pid b = pid a) bs = None" by simp
    show ?thesis by (simp add: Let_def spec_load_def Nil n)
  next
    case (Cons b rest)
    then have nb: "\<not> pid b < pid a" using hd_dropWhile[of "\<lambda>b. pid b < pid a" bs] by auto
    show ?thesis
    proof (cases "pid a = pid b")
      case True
      with Cons f have n: "find (\<lambda>b. pid b = pid a) bs = Some b" by simp
      show ?thesis by (simp add: Let_def spec_load_def Cons True[symmetric] n)
    next
      case False
      with nb have "pid a < pid b" by simp
      with s Cons have "find (\<lambda>x. pid x = pid a) (b # rest) = None"
        using find_none_above[of b rest "pid a"] by simp
      with f Cons have n: "find (\<lambda>b. pid b = pid a) bs = None" by simp
      show ?thesis by (simp add: Let_def spec_load_def Cons False n)
    qed
  qed
qed

lemma process_loads_eq:
  "sorted (map pid bs) \<Longrightarrow> sorted (map pid as) \<Longrightarrow>
   process_loads bs as = map (\<lambda>a. a\<lparr>load := spec_load bs a\<rparr>) as"
proof (induction as arbitrary: bs)
  case Nil
  then show ?case by simp
next
  case (Cons a as)
  let ?bs' = "dropWhile (\<lambda>b. pid b < pid a) bs"
  have s': "sorted (map pid ?bs')" using Cons.prems(1) by (rule sorted_dropWhile_pid)
  from Cons.prems(2) have sa: "sorted (map pid as)" and le: "\<forall>x \<in> set as. pid a \<le> pid x"
    by auto
  have tl: "process_loads ?bs' as = map (\<lambda>a. a\<lparr>load := spec_load ?bs' a\<rparr>) as"
    using Cons.IH[OF s' sa] .
  have same: "\<And>x. x \<in> set as \<Longrightarrow> spec_load ?bs' x = spec_load bs x"
  proof -
    fix x assume "x \<in> set as"
    with le have "pid a \<le> pid x" by simp
    then have "find (\<lambda>b. pid b = pid x) ?bs' = find (\<lambda>b. pid b = pid x) bs"
      by (intro find_dropWhile_disjoint) auto
    then show "spec_load ?bs' x = spec_load bs x" by (simp add: spec_load_def)
  qed
  have hd: "(let a1 = a\<lparr>load := utime a + stime a\<rparr>;
              bs' = dropWhile (\<lambda>b. pid b < pid a1) bs
          in case bs' of [] \<Rightarrow> a1
             | b # _ \<Rightarrow> if pid a1 = pid b then a1\<lparr>load := load a1 - (utime b + stime b)\<rparr> else a1)
         = a\<lparr>load := spec_load bs a\<rparr>"
    using Cons.prems(1) by (rule process_loads_step)
  have "process_loads bs (a # as) = a\<lparr>load := spec_load bs a\<rparr> # process_loads ?bs' as"
    using hd by (simp add: Let_def)
  with tl same show ?case by simp
qed

text \<open>
  Claim C2 (per-process load delta), as amended. The claim as written says that the
  difference is clamped to 0 when the earlier sum exceeds the later one; the source
  subtracts in \<^verbatim>\<open>uint64_t\<close> with no test (the counterexample follows the theorem). For two
  process lists sorted ascending by process id, the loop gives every process of the
  later list the load \<^verbatim>\<open>utime + stime\<close> when its process id is not in the earlier list,
  and the 64-bit difference \<^verbatim>\<open>(a.utime + a.stime) - (b.utime + b.stime)\<close> when \<open>b\<close> is
  the process of the earlier list with its process id; the other fields are unchanged.
  The difference is the exact one when the earlier sum does not exceed the later one
  (\<open>unat_sub\<close>), and wraps around otherwise.
\<close>

theorem process_load_delta:
  assumes "sorted (map pid bs)" and "sorted (map pid as)"
  shows "process_loads bs as =
     map (\<lambda>a. a\<lparr>load :=
            (case find (\<lambda>b. pid b = pid a) bs of
               None \<Rightarrow> utime a + stime a
             | Some b \<Rightarrow> (utime a + stime a) - (utime b + stime b))\<rparr>) as"
  using process_loads_eq[OF assms] by (simp add: spec_load_def)

theorem process_load_delta_witness:
  "sorted (map pid [mk_process 10 3 2]) \<and>
   sorted (map pid [mk_process 10 20 5, mk_process 11 30 10]) \<and>
   map load (process_loads [mk_process 10 3 2] [mk_process 10 20 5, mk_process 11 30 10]) = [20, 40]"
  using process_load_delta [of "[mk_process 10 3 2]" "[mk_process 10 20 5, mk_process 11 30 10]"]
  by (simp add: mk_process_def zero_process_def)

text \<open>
  The claim C2 as written fails for a process whose counters decrease: with the sum 5
  in the earlier snapshot and 3 in the later one the load is \<open>2^64 - 2\<close>, not 0.
\<close>

theorem process_load_not_clamped:
  "sorted (map pid [mk_process 10 5 0]) \<and> sorted (map pid [mk_process 10 3 0]) \<and>
   utime (mk_process 10 3 0) + stime (mk_process 10 3 0)
     < utime (mk_process 10 5 0) + stime (mk_process 10 5 0) \<and>
   map load (process_loads [mk_process 10 5 0] [mk_process 10 3 0]) = [18446744073709551614]"
  by (simp add: mk_process_def zero_process_def)

section \<open>The comparison functions\<close>

lemma sint_word32_of_int:
  "- (2 ^ 31) \<le> k \<Longrightarrow> k < 2 ^ 31 \<Longrightarrow> sint (word_of_int k :: 32 word) = k"
  by (simp add: sint_sbintrunc' signed_take_bit_int_eq_self)

lemma comp_pid_exact:
  assumes "0 \<le> pid a" "pid a < 2 ^ 31" "0 \<le> pid b" "pid b < 2 ^ 31"
  shows "comp_pid a b = pid a - pid b"
  unfolding comp_pid_def using assms by (intro sint_word32_of_int) auto

lemma wi_take_64: "(word_of_int (take_bit 64 k) :: 32 word) = word_of_int k"
  by (simp add: word_of_int_eq_iff)

lemma ucast_sub_64_32:
  "(ucast (x - y :: 64 word) :: 32 word) = word_of_int (uint x - uint y)"
proof -
  have "(ucast (x - y) :: 32 word) = word_of_int (uint (x - y))"
    by (rule ucast_eq)
  also have "uint (x - y) = take_bit 64 (uint x - uint y)"
    by (simp add: uint_word_ariths take_bit_eq_mod)
  also have "(word_of_int (take_bit 64 (uint x - uint y)) :: 32 word) = word_of_int (uint x - uint y)"
    by (rule wi_take_64)
  finally show ?thesis .
qed

lemma uint_small: "unat (w :: 64 word) < 2 ^ 31 \<Longrightarrow> uint w < 2 ^ 31"
proof -
  assume "unat w < 2 ^ 31"
  then have "int (unat w) < int (2 ^ 31)" by (rule iffD2[OF of_nat_less_iff])
  then show ?thesis by simp
qed

lemma comp_load_exact:
  assumes "unat (load a) < 2 ^ 31" "unat (load b) < 2 ^ 31"
  shows "comp_load a b = uint (load b) - uint (load a)"
proof -
  have a: "uint (load a) < 2 ^ 31" and b: "uint (load b) < 2 ^ 31"
    using uint_small[OF assms(1)] uint_small[OF assms(2)] by simp_all
  have a0: "0 \<le> uint (load a)" and b0: "0 \<le> uint (load b)" by simp_all
  have "comp_load a b = sint (word_of_int (uint (load b) - uint (load a)) :: 32 word)"
    unfolding comp_load_def by (simp only: ucast_sub_64_32)
  also have "\<dots> = uint (load b) - uint (load a)"
    using a b a0 b0 by (intro sint_word32_of_int) linarith+
  finally show ?thesis .
qed

lemma comp_load_le_iff:
  assumes "unat (load a) < 2 ^ 31" "unat (load b) < 2 ^ 31"
  shows "comp_load a b \<le> 0 \<longleftrightarrow> load b \<le> load a"
  using comp_load_exact[OF assms] by (simp add: word_le_def)

section \<open>The ranking\<close>

lemma length_process_loads: "length (process_loads bs as) = length as"
  by (induction as arbitrary: bs) (simp_all add: Let_def)

lemma qsort_spec_length: "qsort_spec qsort cmp xs \<Longrightarrow> length (qsort cmp xs) = length xs"
  by (metis qsort_spec_def size_mset)

lemma qsort_spec_set: "qsort_spec qsort cmp xs \<Longrightarrow> set (qsort cmp xs) = set xs"
  by (metis qsort_spec_def set_mset_mset)

lemma qsort_load_descending:
  assumes q: "qsort_spec qsort comp_load xs"
    and small: "\<forall>p \<in> set xs. unat (load p) < 2 ^ 31"
  shows "sorted_wrt (\<lambda>a b. load b \<le> load a) (qsort comp_load xs)"
proof -
  from q have s: "sorted_wrt (\<lambda>a b. comp_load a b \<le> 0) (qsort comp_load xs)"
    by (simp add: qsort_spec_def)
  have "\<And>a b. a \<in> set (qsort comp_load xs) \<Longrightarrow> b \<in> set (qsort comp_load xs) \<Longrightarrow>
         comp_load a b \<le> 0 \<Longrightarrow> load b \<le> load a"
    using small by (simp add: qsort_spec_set[OF q] comp_load_le_iff)
  with s show ?thesis by (rule sorted_wrt_mono_rel[rotated])
qed

lemma row_load_show_process: "row_load (show_process rnd tot p) = load p"
  by (simp add: show_process_def)

lemma ranking_length:
  assumes "qsort_spec qsort comp_load (process_loads (procs before) (procs after))"
  shows "fst (show_result_process qsort rnd tot before after) = length (procs after) \<and>
         length (snd (show_result_process qsort rnd tot before after))
           = min DISPLAY_PROCESS_NUM (length (procs after)) \<and>
         snd (show_result_process qsort rnd tot before after)
           = map (show_process rnd tot)
               (take DISPLAY_PROCESS_NUM
                  (qsort comp_load (process_loads (procs before) (procs after))))"
proof -
  let ?ys = "qsort comp_load (process_loads (procs before) (procs after))"
  have len: "length ?ys = length (procs after)"
    using qsort_spec_length[OF assms] by (simp add: length_process_loads)
  then show ?thesis by (simp add: show_result_process_def Let_def min_def)
qed

lemma ranking_order:
  assumes "qsort_spec qsort comp_load (process_loads (procs before) (procs after))"
    and "\<forall>p \<in> set (process_loads (procs before) (procs after)). unat (load p) < 2 ^ 31"
  shows "sorted_wrt (\<lambda>r s. row_load s \<le> row_load r)
           (snd (show_result_process qsort rnd tot before after))"
proof -
  let ?ys = "qsort comp_load (process_loads (procs before) (procs after))"
  have "sorted_wrt (\<lambda>a b. load b \<le> load a) (take DISPLAY_PROCESS_NUM ?ys)"
    using qsort_load_descending[OF assms] by (rule sorted_wrt_take)
  then have "sorted_wrt (\<lambda>r s. row_load s \<le> row_load r)
      (map (show_process rnd tot) (take DISPLAY_PROCESS_NUM ?ys))"
    by (simp add: sorted_wrt_map row_load_show_process)
  then show ?thesis using ranking_length[OF assms(1), of rnd tot] by simp
qed

lemma comp_load_tie: "load a = load b \<Longrightarrow> comp_load a b = 0"
  by (simp add: comp_load_def)

lemma wrapped_loads:
  "process_loads (procs wrapped_before) (procs wrapped_after)
     = [mk_process 10 3 0\<lparr>load := 18446744073709551614\<rparr>, mk_process 11 4 0\<lparr>load := 4\<rparr>]"
  by (simp add: wrapped_before_def wrapped_after_def snapshot_def mk_process_def zero_process_def)

lemma wrapped_comp:
  "comp_load (mk_process 10 3 0\<lparr>load := 18446744073709551614\<rparr>) (mk_process 11 4 0\<lparr>load := 4\<rparr>) = 6"
  "comp_load (mk_process 11 4 0\<lparr>load := 4\<rparr>) (mk_process 10 3 0\<lparr>load := 18446744073709551614\<rparr>) = - 6"
  by (simp_all add: comp_load_def mk_process_def zero_process_def)

lemma two_element_permutation:
  assumes "mset ys = mset [a, b]"
  shows "ys = [a, b] \<or> ys = [b, a]"
proof -
  from assms have "length ys = 2" by (metis length_Cons list.size(3) size_mset numeral_2_eq_2)
  then obtain x y where ys: "ys = [x, y]"
    by (metis length_0_conv length_Suc_conv numeral_2_eq_2)
  with assms show ?thesis by (auto simp: add_eq_conv_ex)
qed

lemma wrapped_load_last_any_qsort:
  assumes "qsort_spec qsort comp_load (process_loads (procs wrapped_before) (procs wrapped_after))"
  shows "map row_pid (snd (show_result_process qsort rnd tot wrapped_before wrapped_after)) = [11, 10]"
proof -
  let ?hi = "mk_process 10 3 0\<lparr>load := 18446744073709551614\<rparr>"
  let ?lo = "mk_process 11 4 0\<lparr>load := 4\<rparr>"
  let ?ys = "qsort comp_load [?hi, ?lo]"
  from assms have m: "mset ?ys = mset [?hi, ?lo]"
    and s: "sorted_wrt (\<lambda>a b. comp_load a b \<le> 0) ?ys"
    by (simp_all add: qsort_spec_def wrapped_loads)
  from two_element_permutation[OF m] have "?ys = [?lo, ?hi]"
  proof
    assume "?ys = [?hi, ?lo]"
    with s have "comp_load ?hi ?lo \<le> 0" by simp
    then show ?thesis by (simp add: wrapped_comp)
  qed
  then have "take DISPLAY_PROCESS_NUM ?ys = [?lo, ?hi]"
    by (simp add: DISPLAY_PROCESS_NUM_def)
  with ranking_length[OF assms, of rnd tot] show ?thesis
    by (simp add: wrapped_loads show_process_def mk_process_def zero_process_def)
qed

lemmas ranking_eval = mk_process_def zero_process_def snapshot_def Let_def comp_load_def comp_pid_def
  qsort_spec_def insertion_qsort_def show_result_process_def show_process_def
  DISPLAY_PROCESS_NUM_def usage_percent_def

text \<open>
  The scenario of the specification: process 10 with the sums 5 and 25, process 11 new
  with the sum 40; the table lists process 11 (load 40), then process 10 (load 20).
\<close>

lemma ranking_example:
  "qsort_spec insertion_qsort comp_load
     (process_loads (procs (snapshot [mk_process 10 3 2]))
        (procs (snapshot [mk_process 10 20 5, mk_process 11 30 10]))) \<and>
   map row_pid (snd (show_result_process insertion_qsort (\<lambda>x. x) 50
       (snapshot [mk_process 10 3 2]) (snapshot [mk_process 10 20 5, mk_process 11 30 10]))) = [11, 10] \<and>
   map row_load (snd (show_result_process insertion_qsort (\<lambda>x. x) 50
       (snapshot [mk_process 10 3 2]) (snapshot [mk_process 10 20 5, mk_process 11 30 10]))) = [40, 20]"
  by (simp add: ranking_eval)

text \<open>
  Claim C3 (process ranking) fails on the order: the table is not always sorted by load
  descending. \<^verbatim>\<open>comp_load\<close> returns the \<^verbatim>\<open>uint64_t\<close> difference of the two loads as an
  \<^verbatim>\<open>int\<close>, which keeps the low 32 bits, so its sign is not that of the comparison of the
  loads, against its own comment (negative when the load of \<open>a\<close> is the larger one).
  With process 10 at the sums 5 and then 3 (load \<open>2^64 - 2\<close>, the subtraction of the
  loop) and a new process 11 with the sum 4, \<^verbatim>\<open>comp_load\<close> returns 6 for the pair
  (process 10, process 11) and the table lists process 11 (load 4) before process 10
  (load \<open>2^64 - 2\<close>). Every \<^verbatim>\<open>qsort\<close> that meets its contract gives this order
  (\<open>wrapped_load_last_any_qsort\<close>). The length of the table is as the claim says
  (\<open>ranking_length\<close>), and so is the order when every load is below \<open>2^31\<close>
  (\<open>ranking_order\<close>); processes of equal load compare equal (\<open>comp_load_tie\<close>), and their
  order is the one \<^verbatim>\<open>qsort\<close> leaves them in.
\<close>

theorem ranking_wrapped_load_last:
  "map load (process_loads (procs wrapped_before) (procs wrapped_after))
     = [18446744073709551614, 4] \<and>
   map row_pid (snd (show_result_process insertion_qsort rnd tot wrapped_before wrapped_after))
     = [11, 10] \<and>
   map row_load (snd (show_result_process insertion_qsort rnd tot wrapped_before wrapped_after))
     = [4, 18446744073709551614] \<and>
   \<not> sorted_wrt (\<lambda>r s. row_load s \<le> row_load r)
       (snd (show_result_process insertion_qsort rnd tot wrapped_before wrapped_after)) \<and>
   comp_load (mk_process 10 3 0\<lparr>load := 18446744073709551614\<rparr>) (mk_process 11 4 0\<lparr>load := 4\<rparr>) = 6"
proof -
  let ?hi = "mk_process 10 3 0\<lparr>load := 18446744073709551614\<rparr>"
  let ?lo = "mk_process 11 4 0\<lparr>load := 4\<rparr>"
  have n: "length (procs wrapped_after) = 2"
    by (simp add: wrapped_after_def snapshot_def)
  have q: "insertion_qsort comp_load [?hi, ?lo] = [?lo, ?hi]"
    by (simp add: insertion_qsort_def wrapped_comp)
  have rows: "snd (show_result_process insertion_qsort rnd tot wrapped_before wrapped_after)
      = [show_process rnd tot ?lo, show_process rnd tot ?hi]"
    by (simp add: show_result_process_def Let_def wrapped_loads n q DISPLAY_PROCESS_NUM_def)
  have pids: "pid ?lo = 11" "pid ?hi = 10"
    by (simp_all add: mk_process_def zero_process_def)
  show ?thesis
    by (simp add: rows wrapped_loads wrapped_comp show_process_def pids)
qed

section \<open>The process list of a snapshot\<close>

lemma assign_preserves:
  "(\<And>f v r. f \<in> set fs \<Longrightarrow> g (f v r) = g r) \<Longrightarrow> g (assign fs vs r) = g r"
proof (induction fs vs r rule: assign.induct)
  case (1 f fs v vs r)
  then show ?case by simp
qed simp_all

lemma assign_process_pid: "pid (assign process_args got proc) = pid proc"
  by (rule assign_preserves) (auto simp: process_args_def)

lemma parse_stat_pid: "parse_stat line proc = Returns (r, p) \<Longrightarrow> pid p = pid proc"
  by (auto simp: parse_stat_def Let_def assign_process_pid split: option.splits if_splits)

lemma read_pid_stat_pid: "read_pid_stat stat_of k = Returns (SUCCESS, p) \<Longrightarrow> pid p = k"
  by (auto simp: read_pid_stat_def dest: parse_stat_pid split: option.splits prod.splits)

lemma atoi_nonneg: "0 \<le> atoi s"
  by (simp add: atoi_def)

lemma read_process_loop_pids:
  "read_process_loop stat_of names ps = Returns qs \<Longrightarrow>
   pid ` set qs \<subseteq> pid ` set ps \<union> atoi ` set names"
proof (induction stat_of names ps rule: read_process_loop.induct)
  case (1 stat_of ps)
  then show ?case by simp
next
  case (2 stat_of d_name rest ps)
  show ?case
  proof (cases d_name)
    case Nil
    with 2 show ?thesis by auto
  next
    case (Cons c cs)
    show ?thesis
    proof (cases "isdigit c")
      case False
      with 2 Cons show ?thesis by auto
    next
      case True
      show ?thesis
      proof (cases "read_pid_stat stat_of (atoi d_name)")
        case Undefined
        with 2 Cons True show ?thesis by simp
      next
        case (Returns rp)
        obtain r p where rp: "rp = (r, p)" by (cases rp)
        show ?thesis
        proof (cases r)
          case SUCCESS
          with Returns rp have "pid p = atoi d_name" by (auto dest: read_pid_stat_pid)
          moreover from 2 Cons True Returns rp SUCCESS
          have "pid ` set qs \<subseteq> pid ` set (ps @ [p]) \<union> atoi ` set rest" by simp
          ultimately show ?thesis by auto
        next
          case FAILURE
          with 2 Cons True Returns rp
          have "pid ` set qs \<subseteq> pid ` set ps \<union> atoi ` set rest" by simp
          then show ?thesis by auto
        qed
      qed
    qed
  qed
qed

lemma sorted_pid_of_comp_pid:
  assumes "sorted_wrt (\<lambda>a b. comp_pid a b \<le> 0) ys"
    and "\<forall>p \<in> set ys. 0 \<le> pid p \<and> pid p < 2 ^ 31"
  shows "sorted (map pid ys)"
proof -
  have "\<And>a b. a \<in> set ys \<Longrightarrow> b \<in> set ys \<Longrightarrow> comp_pid a b \<le> 0 \<Longrightarrow> pid a \<le> pid b"
    using assms(2) by (simp add: comp_pid_exact)
  with assms(1) have "sorted_wrt (\<lambda>a b. pid a \<le> pid b) ys"
    by (rule sorted_wrt_mono_rel[rotated])
  then show ?thesis by (simp add: sorted_map)
qed

text \<open>
  Claim C9 (sortedness of the process list). When \<^verbatim>\<open>read_process\<close> returns \<^verbatim>\<open>SUCCESS\<close>,
  the process list of the snapshot is sorted ascending by process id, whatever the
  order in which \<^verbatim>\<open>readdir\<close> returns the entries. The hypotheses: the names of the
  directory denote numbers that are values of \<^verbatim>\<open>int\<close>, and \<^verbatim>\<open>qsort\<close> meets its contract
  for \<^verbatim>\<open>comp_pid\<close> on lists of such process ids (where the subtraction of \<^verbatim>\<open>comp_pid\<close>
  does not overflow).
\<close>

theorem read_process_sorted:
  assumes run: "read_process qsort fs cpu = Returns (SUCCESS, cpu')"
    and names: "proc_dir fs = Some names"
    and range: "\<forall>d_name \<in> set names. atoi d_name < 2 ^ 31"
    and sort: "\<forall>ps. (\<forall>p \<in> set ps. 0 \<le> pid p \<and> pid p < 2 ^ 31) \<longrightarrow> qsort_spec qsort comp_pid ps"
  shows "sorted (map pid (procs cpu'))"
proof -
  from run names obtain ps where
    loop: "read_process_loop (pid_stat_file fs) names [] = Returns ps"
    and cpu': "procs cpu' = qsort comp_pid ps"
    by (auto simp: read_process_def Let_def split: outcome.splits)
  from read_process_loop_pids[OF loop] have "pid ` set ps \<subseteq> atoi ` set names" by simp
  with range have r: "\<forall>p \<in> set ps. 0 \<le> pid p \<and> pid p < 2 ^ 31"
    using atoi_nonneg by fastforce
  with sort have q: "qsort_spec qsort comp_pid ps" by simp
  then have s: "sorted_wrt (\<lambda>a b. comp_pid a b \<le> 0) (qsort comp_pid ps)"
    by (simp add: qsort_spec_def)
  from r have "\<forall>p \<in> set (qsort comp_pid ps). 0 \<le> pid p \<and> pid p < 2 ^ 31"
    by (simp add: qsort_spec_set[OF q])
  with s show ?thesis unfolding cpu' by (rule sorted_pid_of_comp_pid)
qed

lemmas scan_eval = fgets_def LINE_BUFFER_SIZE_def parse_stat_def strchr_def strrchr_def
  PR_NAME_LEN_def fmt_stat_def fmt_cpu_def fmt_core_def scan_number_def isspace_def isdigit_def
  decimal_def digit_val_def to_ulong_def to_long_def process_args_def cputime_args_def
  the_c_def the_lu_def the_ld_def zero_process_def zero_cputime_def Let_def atoi_def

lemma example_stat_30: "read_pid_stat (pid_stat_file example_procfs) 30 =
  Returns (SUCCESS, \<lparr>pid = 30, comm = ''sh'', state = CHR ''S'', load = 0, utime = 3, stime = 4,
     cutime = 0, cstime = 0, priority = 20, p_nice = 0\<rparr>)"
  by (simp add: read_pid_stat_def example_procfs_def scan_eval)

lemma example_stat_7: "read_pid_stat (pid_stat_file example_procfs) 7 =
  Returns (SUCCESS, \<lparr>pid = 7, comm = ''kworker/0:1'', state = CHR ''I'', load = 0, utime = 0, stime = 1,
     cutime = 0, cstime = 0, priority = 0, p_nice = - 20\<rparr>)"
  by (simp add: read_pid_stat_def example_procfs_def scan_eval)

lemma example_loop: "read_process_loop (pid_stat_file example_procfs) [''30'', ''self'', ''7''] [] =
  Returns [\<lparr>pid = 30, comm = ''sh'', state = CHR ''S'', load = 0, utime = 3, stime = 4,
     cutime = 0, cstime = 0, priority = 20, p_nice = 0\<rparr>,
    \<lparr>pid = 7, comm = ''kworker/0:1'', state = CHR ''I'', load = 0, utime = 0, stime = 1,
     cutime = 0, cstime = 0, priority = 0, p_nice = - 20\<rparr>]"
  using example_stat_30 example_stat_7 by (simp add: atoi_def isdigit_def decimal_def digit_val_def)

lemma mset_insert_by: "mset (insert_by cmp x ys) = add_mset x (mset ys)"
  by (induction ys) simp_all

lemma mset_insertion_qsort: "mset (insertion_qsort cmp xs) = mset xs"
  by (induction xs) (simp_all add: insertion_qsort_def mset_insert_by)

lemma set_insert_by: "set (insert_by cmp x ys) = insert x (set ys)"
  by (metis mset_insert_by set_mset_add_mset_insert set_mset_mset)

lemma sorted_insert_by_pid:
  assumes "sorted (map pid ys)"
    and "\<forall>p \<in> set (x # ys). 0 \<le> pid p \<and> pid p < 2 ^ 31"
  shows "sorted (map pid (insert_by comp_pid x ys))"
  using assms
proof (induction ys)
  case Nil
  then show ?case by simp
next
  case (Cons y ys)
  then have c: "comp_pid x y = pid x - pid y" by (simp add: comp_pid_exact)
  from Cons have "sorted (map pid (insert_by comp_pid x ys))" by simp
  with Cons.prems c show ?case by (auto simp: set_insert_by)
qed

lemma sorted_insertion_qsort_pid:
  "\<forall>p \<in> set xs. 0 \<le> pid p \<and> pid p < 2 ^ 31 \<Longrightarrow>
   sorted (map pid (insertion_qsort comp_pid xs))"
proof (induction xs)
  case Nil
  then show ?case by (simp add: insertion_qsort_def)
next
  case (Cons x xs)
  then have s: "sorted (map pid (insertion_qsort comp_pid xs))" by simp
  have "set (insertion_qsort comp_pid xs) = set xs"
    by (metis mset_insertion_qsort set_mset_mset)
  with Cons.prems have "\<forall>p \<in> set (x # insertion_qsort comp_pid xs). 0 \<le> pid p \<and> pid p < 2 ^ 31"
    by simp
  with s have "sorted (map pid (insert_by comp_pid x (insertion_qsort comp_pid xs)))"
    by (rule sorted_insert_by_pid)
  then show ?case by (simp add: insertion_qsort_def)
qed

lemma insertion_qsort_spec_pid:
  assumes "\<forall>p \<in> set ps. 0 \<le> pid p \<and> pid p < 2 ^ 31"
  shows "qsort_spec insertion_qsort comp_pid ps"
proof -
  let ?ys = "insertion_qsort comp_pid ps"
  have set: "set ?ys = set ps" by (metis mset_insertion_qsort set_mset_mset)
  have "sorted_wrt (\<lambda>a b. pid a \<le> pid b) ?ys"
    using sorted_insertion_qsort_pid[OF assms] by (simp add: sorted_map)
  moreover have "\<And>a b. a \<in> set ?ys \<Longrightarrow> b \<in> set ?ys \<Longrightarrow> pid a \<le> pid b \<Longrightarrow> comp_pid a b \<le> 0"
    using assms by (simp add: set comp_pid_exact)
  ultimately have "sorted_wrt (\<lambda>a b. comp_pid a b \<le> 0) ?ys"
    by (rule sorted_wrt_mono_rel[rotated])
  then show ?thesis by (simp add: qsort_spec_def mset_insertion_qsort)
qed

lemma example_read_process:
  "read_process insertion_qsort example_procfs (snapshot []) =
     Returns (SUCCESS, snapshot example_processes)"
proof -
  have "proc_dir example_procfs = Some [''30'', ''self'', ''7'']"
    by (simp add: example_procfs_def)
  then show ?thesis
    using example_loop
    by (simp add: read_process_def Let_def snapshot_def example_processes_def
        insertion_qsort_def comp_pid_def)
qed

theorem read_process_sorted_witness:
  "read_process insertion_qsort example_procfs (snapshot []) =
     Returns (SUCCESS, snapshot example_processes) \<and>
   proc_dir example_procfs = Some [''30'', ''self'', ''7''] \<and>
   list_all (\<lambda>d_name. atoi d_name < 2 ^ 31) [''30'', ''self'', ''7''] \<and>
   map pid (procs (snapshot example_processes)) = [7, 30] \<and>
   sorted (map pid (procs (snapshot example_processes)))"
proof -
  have d: "proc_dir example_procfs = Some [''30'', ''self'', ''7'']"
    by (simp add: example_procfs_def)
  have r: "\<forall>d_name \<in> set [''30'', ''self'', ''7'']. atoi d_name < 2 ^ 31"
    by (simp add: atoi_def isdigit_def decimal_def digit_val_def)
  have q: "\<forall>ps. (\<forall>p \<in> set ps. 0 \<le> pid p \<and> pid p < 2 ^ 31)
            \<longrightarrow> qsort_spec insertion_qsort comp_pid ps"
    by (simp add: insertion_qsort_spec_pid)
  from read_process_sorted [OF example_read_process d r q] example_read_process d r
  show ?thesis by (simp add: snapshot_def example_processes_def)
qed

section \<open>The total handed to the process table\<close>

lemma usage_percent_defined:
  assumes r: "float_rounding rnd" and nz: "tot \<noteq> 0"
  shows "usage_percent rnd l tot \<noteq> None"
proof -
  from r have m: "mono rnd" and r1: "rnd 1 = 1" by (simp_all add: float_rounding_def)
  from nz have "(1::nat) \<le> unat tot" by (simp add: Suc_le_eq unat_gt_0)
  then have "(1::real) \<le> real (unat tot)" by linarith
  then have "rnd 1 \<le> rnd (real (unat tot))" by (rule monoD[OF m])
  then have "rnd (real (unat tot)) \<noteq> 0" by (simp add: r1)
  then show ?thesis by (simp add: usage_percent_def Let_def)
qed

lemma aggregate_total_nonzero: "r_total (aggregate_line rnd before after) \<noteq> 0"
  by (simp add: aggregate_line_def Let_def)

text \<open>
  Claim C10 (the total handed to the process table). In \<^verbatim>\<open>show_result\<close> of \<^verbatim>\<open>cpup.c\<close>
  the total that \<^verbatim>\<open>show_result_process\<close> receives is the floored one, at least 1 for
  every pair of snapshots (also when the aggregate Delta is all zeros), and the division
  \<^verbatim>\<open>load / total\<close> of every row has a non-zero divisor: every row has a percentage.
\<close>

theorem process_total_floored:
  assumes "float_rounding rnd"
  shows "1 \<le> unat (r_total (fst (cpup_show_result qsort rnd before after))) \<and>
         snd (snd (cpup_show_result qsort rnd before after))
           = show_result_process qsort rnd
               (r_total (fst (cpup_show_result qsort rnd before after))) before after \<and>
         (\<forall>row \<in> set (snd (snd (snd (cpup_show_result qsort rnd before after)))).
            row_usage row \<noteq> None)"
proof -
  let ?line = "aggregate_line rnd (p_times before ! cpu_num before) (p_times after ! cpu_num before)"
  have l: "fst (cpup_show_result qsort rnd before after) = ?line"
    by (simp add: cpup_show_result_def Let_def)
  have p: "snd (snd (cpup_show_result qsort rnd before after))
           = show_result_process qsort rnd (r_total ?line) before after"
    by (simp add: cpup_show_result_def Let_def)
  have nz: "r_total ?line \<noteq> 0" by (rule aggregate_total_nonzero)
  then have one: "1 \<le> unat (r_total ?line)" by (simp add: Suc_le_eq unat_gt_0)
  have "\<forall>row \<in> set (snd (show_result_process qsort rnd (r_total ?line) before after)).
          row_usage row \<noteq> None"
    using usage_percent_defined[OF assms nz]
    by (auto simp: show_result_process_def show_process_def Let_def)
  with one show ?thesis by (simp add: l p)
qed

theorem process_total_floored_witness:
  "float_rounding (\<lambda>x. x) \<and>
   r_total (fst (cpup_show_result insertion_qsort (\<lambda>x. x)
      (snapshot [mk_process 10 3 2]) (snapshot [mk_process 10 20 5, mk_process 11 30 10]))) = 1 \<and>
   map row_usage (snd (snd (snd (cpup_show_result insertion_qsort (\<lambda>x. x)
      (snapshot [mk_process 10 3 2]) (snapshot [mk_process 10 20 5, mk_process 11 30 10])))))
     = [Some 4000, Some 2000]"
  using process_total_floored [OF float_rounding_id, of insertion_qsort
      "snapshot [mk_process 10 3 2]" "snapshot [mk_process 10 20 5, mk_process 11 30 10]"]
    float_rounding_id
  by (simp add: cpup_show_result_def aggregate_line_def get_diff_fields get_total_def
      get_load_def get_idle_def get_iowait_def get_system_def get_user_def get_irq_def
      get_guest_def zero_cputime_def ranking_eval)

section \<open>Failures of the counter source in the main loops\<close>

lemma cpus_loop_runs:
  "snd (cpus_loop rnd before after files) = Running \<and>
   length (fst (cpus_loop rnd before after files)) = length files"
  by (induction files arbitrary: before after) (simp_all add: Let_def case_prod_beta)

lemma cpus_read_stat_unavailable: "cpus_read_stat None cpu = (FAILURE, cpu)"
  by (simp add: cpus_read_stat_def)

text \<open>
  Claim C6 (fatal error handling) fails in \<^verbatim>\<open>cpus.c\<close>: its \<^verbatim>\<open>main\<close> does not look at the
  result of \<^verbatim>\<open>read_stat\<close>. When \<^verbatim>\<open>/proc/stat\<close> cannot be opened, at the first read or at
  a later one, \<^verbatim>\<open>read_stat\<close> returns \<^verbatim>\<open>FAILURE\<close> and the program goes on: it prints a
  line for that cycle and for every later one, and never exits. (\<^verbatim>\<open>main\<close> of \<^verbatim>\<open>cpu.c\<close>
  and of \<^verbatim>\<open>cpup.c\<close> exit with \<^verbatim>\<open>EXIT_FAILURE\<close> at once: \<open>cpu_main_aborts\<close>,
  \<open>cpu_loop_aborts\<close>, \<open>cpup_main_aborts\<close>, \<open>cpup_loop_aborts\<close> below.)
\<close>

theorem cpus_main_ignores_failure:
  "fst (cpus_read_stat None after) = FAILURE \<and>
   snd (cpus_main rnd before after (Some content # None # files)) = Running \<and>
   length (fst (cpus_main rnd before after (Some content # None # files))) = Suc (length files) \<and>
   snd (cpus_main rnd before after (None # files)) = Running \<and>
   length (fst (cpus_main rnd before after (None # files))) = length files"
  by (simp add: cpus_main_def cpus_loop_runs cpus_read_stat_unavailable Let_def case_prod_beta)

lemma cpu_read_stat_unavailable: "cpu_read_stat None cpu = (FAILURE, cpu)"
  by (simp add: cpu_read_stat_def read_stat_times_def)

lemma cpup_read_stat_unavailable: "cpup_read_stat None cpu = (FAILURE, cpu)"
  by (simp add: cpup_read_stat_def read_stat_times_def)

lemma read_stat_times_malformed:
  "fgets content = Some (line, rest) \<Longrightarrow> length (sscanf line fmt_cpu) < 4 \<Longrightarrow>
   fst (read_stat_times cleared (Some content) n ts) = FAILURE"
  by (simp add: read_stat_times_def Let_def)

lemma cpu_loop_aborts:
  "fst (cpu_read_stat file after) = FAILURE \<Longrightarrow>
   cpu_loop rnd before after (file # files) = ([], Exited EXIT_FAILURE)"
  by (cases "cpu_read_stat file after") simp

lemma cpu_main_aborts:
  "fst (cpu_read_stat file before) = FAILURE \<Longrightarrow>
   cpu_main rnd before after (file # files) = ([], Exited EXIT_FAILURE)"
  by (cases "cpu_read_stat file before") (simp add: cpu_main_def)

lemma cpup_read_failure:
  "fst (cpup_read_stat (stat_file fs) cpu) = FAILURE \<Longrightarrow>
   \<exists>cpu'. cpup_read qsort fs cpu = Returns (FAILURE, cpu')"
  by (cases "cpup_read_stat (stat_file fs) cpu") (simp add: cpup_read_def)

lemma cpup_loop_aborts:
  "fst (cpup_read_stat (stat_file fs) after) = FAILURE \<Longrightarrow>
   cpup_loop qsort rnd before after (fs # rest) = ([], Exited EXIT_FAILURE)"
  using cpup_read_failure[of fs after qsort] by auto

lemma cpup_main_aborts:
  "fst (cpup_read_stat (stat_file fs) before) = FAILURE \<Longrightarrow>
   cpup_main qsort rnd before after (fs # rest) = ([], Exited EXIT_FAILURE)"
  using cpup_read_failure[of fs before qsort] by (auto simp: cpup_main_def)

section \<open>Fields absent from the aggregate line\<close>

lemma assign_take: "assign fs vs r = assign (take (length vs) fs) vs r"
  by (induction fs vs r rule: assign.induct) simp_all

lemma assign_untouched:
  assumes "length vs \<le> k" and "\<And>f v r. f \<in> set (take k fs) \<Longrightarrow> g (f v r) = g r"
  shows "g (assign fs vs r) = g r"
proof -
  have "set (take (length vs) fs) \<subseteq> set (take k fs)"
    using assms(1) by (rule set_take_subset_set_take)
  with assms(2) have "g (assign (take (length vs) fs) vs r) = g r"
    by (intro assign_preserves) auto
  then show ?thesis by (simp add: assign_take[of fs vs r])
qed

lemma take_cputime_args:
  "take 4 cputime_args = [\<lambda>x w. w\<lparr>user := the_lu x\<rparr>, \<lambda>x w. w\<lparr>nice := the_lu x\<rparr>,
      \<lambda>x w. w\<lparr>system := the_lu x\<rparr>, \<lambda>x w. w\<lparr>idle := the_lu x\<rparr>]"
  "take 5 cputime_args = take 4 cputime_args @ [\<lambda>x w. w\<lparr>iowait := the_lu x\<rparr>]"
  "take 6 cputime_args = take 5 cputime_args @ [\<lambda>x w. w\<lparr>irq := the_lu x\<rparr>]"
  "take 7 cputime_args = take 6 cputime_args @ [\<lambda>x w. w\<lparr>softirq := the_lu x\<rparr>]"
  "take 8 cputime_args = take 7 cputime_args @ [\<lambda>x w. w\<lparr>steal := the_lu x\<rparr>]"
  "take 9 cputime_args = take 8 cputime_args @ [\<lambda>x w. w\<lparr>guest := the_lu x\<rparr>]"
  by (simp_all add: cputime_args_def)

lemma absent_fields_untouched:
  "length got \<le> 4 \<Longrightarrow> iowait (assign cputime_args got w) = iowait w"
  "length got \<le> 5 \<Longrightarrow> irq (assign cputime_args got w) = irq w"
  "length got \<le> 6 \<Longrightarrow> softirq (assign cputime_args got w) = softirq w"
  "length got \<le> 7 \<Longrightarrow> steal (assign cputime_args got w) = steal w"
  "length got \<le> 8 \<Longrightarrow> guest (assign cputime_args got w) = guest w"
  "length got \<le> 9 \<Longrightarrow> guest_nice (assign cputime_args got w) = guest_nice w"
  by (erule assign_untouched, auto simp: take_cputime_args)+

lemma cpus_read_stat_result:
  assumes "fgets content = Some (line, rest)"
  shows "cpus_read_stat (Some content) cpu =
           (if length (sscanf line fmt_cpu) < 4 then FAILURE else SUCCESS,
            assign cputime_args (sscanf line fmt_cpu) zero_cputime)"
  using assms by (simp add: cpus_read_stat_def Let_def)

lemma cpus_read_stat_defaults:
  assumes "fgets content = Some (line, rest)"
    and "cpus_read_stat (Some content) cpu = (SUCCESS, c)"
  shows "4 \<le> length (sscanf line fmt_cpu)"
    and "length (sscanf line fmt_cpu) \<le> 4 \<Longrightarrow> iowait c = 0"
    and "length (sscanf line fmt_cpu) \<le> 5 \<Longrightarrow> irq c = 0"
    and "length (sscanf line fmt_cpu) \<le> 6 \<Longrightarrow> softirq c = 0"
    and "length (sscanf line fmt_cpu) \<le> 7 \<Longrightarrow> steal c = 0"
    and "length (sscanf line fmt_cpu) \<le> 8 \<Longrightarrow> guest c = 0"
    and "length (sscanf line fmt_cpu) \<le> 9 \<Longrightarrow> guest_nice c = 0"
  using assms(2) unfolding cpus_read_stat_result[OF assms(1)]
  by (auto simp: absent_fields_untouched zero_cputime_def split: if_splits)

lemma scan_four: "sscanf ''cpu 1 2 3 4
'' fmt_cpu = [Got_lu 1, Got_lu 2, Got_lu 3, Got_lu 4]"
  by (simp add: scan_eval)

lemma fgets_four: "fgets ''cpu 1 2 3 4
'' = Some (''cpu 1 2 3 4
'', [])"
  by (simp add: scan_eval)

text \<open>
  Claim C7 (aggregate-line parsing) fails in \<^verbatim>\<open>cpup.c\<close> for the aggregate record:
  \<^verbatim>\<open>memset\<close> clears \<^verbatim>\<open>cpu_num\<close> records and not \<^verbatim>\<open>cpu_num + 1\<close>, so the aggregate record,
  at index \<^verbatim>\<open>cpu_num\<close>, keeps what it held. For the line \<^verbatim>\<open>cpu 1 2 3 4\<close> and a record
  whose fields were all 7, \<^verbatim>\<open>read_stat\<close> of \<^verbatim>\<open>cpup.c\<close> succeeds and leaves 7 in \<^verbatim>\<open>iowait\<close>
  and the five fields after it; \<^verbatim>\<open>read_stat\<close> of \<^verbatim>\<open>cpu.c\<close> gives 0 there, and so does
  that of \<^verbatim>\<open>cpus.c\<close> (\<open>cpus_read_stat_defaults\<close>).
\<close>

theorem cpup_read_stat_keeps_stale:
  "cpup_read_stat (Some ''cpu 1 2 3 4
'') \<lparr>cpu_num = 1, p_times = [stale_cputime, stale_cputime], procs = []\<rparr>
     = (SUCCESS, \<lparr>cpu_num = 1,
          p_times = [zero_cputime, stale_cputime\<lparr>user := 1, nice := 2, system := 3, idle := 4\<rparr>],
          procs = []\<rparr>) \<and>
   iowait (stale_cputime\<lparr>user := 1, nice := 2, system := 3, idle := 4\<rparr>) = 7 \<and>
   cpu_read_stat (Some ''cpu 1 2 3 4
'') \<lparr>num = 1, times = [stale_cputime, stale_cputime]\<rparr>
     = (SUCCESS, \<lparr>num = 1,
          times = [zero_cputime, zero_cputime\<lparr>user := 1, nice := 2, system := 3, idle := 4\<rparr>]\<rparr>)"
  by (simp add: cpup_read_stat_def cpu_read_stat_def read_stat_times_def fgets_four scan_four
      cputime_args_def the_lu_def stale_cputime_def Let_def)

section \<open>Processes that cannot be read\<close>

lemma read_process_loop_skips:
  "isdigit c \<Longrightarrow> read_pid_stat stat_of (atoi (c # cs)) = Returns (FAILURE, p) \<Longrightarrow>
   read_process_loop stat_of ((c # cs) # rest) ps = read_process_loop stat_of rest ps"
  by simp

lemma parse_stat_result:
  assumes "strchr line CHR ''('' = Some i"
    and "strrchr (drop (i + 1) line) CHR '')'' = Some len"
    and "parse_stat line proc = Returns (r, p)"
  shows "r = (if length (sscanf (drop (len + 2) (drop (i + 1) line)) fmt_stat) \<noteq> 7
              then FAILURE else SUCCESS)"
  using assms by (auto simp: parse_stat_def Let_def split: if_splits)

lemma read_process_completes:
  "proc_dir fs = Some names \<Longrightarrow>
   read_process_loop (pid_stat_file fs) names [] = Returns ps \<Longrightarrow>
   read_process qsort fs cpu = Returns (SUCCESS, cpu\<lparr>procs := qsort comp_pid ps\<rparr>)"
  by (simp add: read_process_def Let_def)

text \<open>
  Claim C8 (a process that cannot be read is skipped) fails for a record that cannot be
  opened: \<^verbatim>\<open>read_pid_stat\<close> then calls \<^verbatim>\<open>fclose\<close> with the null pointer, which is
  undefined and kills the program on the common C libraries; the process is not
  skipped and the collection does not succeed. (A record that binds fewer than seven
  fields is skipped, as the claim says: \<open>read_process_loop_skips\<close>,
  \<open>short_record_skipped\<close>.)
\<close>

theorem read_process_unopenable:
  "read_pid_stat (\<lambda>p. None) 42 = Undefined \<and>
   cpup_main qsort rnd (snapshot []) (snapshot [])
     [example_procfs\<lparr>proc_dir := Some [''42''], pid_stat_file := (\<lambda>p. None)\<rparr>] = ([], Killed) \<and>
   read_process qsort \<lparr>stat_file = s, proc_dir = Some [''42''], pid_stat_file = (\<lambda>p. None)\<rparr> cpu
     = Undefined \<and>
   cpup_read qsort \<lparr>stat_file = s, proc_dir = Some [''42''], pid_stat_file = (\<lambda>p. None)\<rparr> cpu
     \<noteq> Returns (SUCCESS, cpu')"
proof -
  define fs where "fs = example_procfs\<lparr>proc_dir := Some [''42''], pid_stat_file := (\<lambda>p. None)\<rparr>"
  have a: "read_pid_stat (\<lambda>p. None) 42 = Undefined"
    by (simp add: read_pid_stat_def)
  have rp: "read_process qsort (f\<lparr>proc_dir := Some [''42''], pid_stat_file := (\<lambda>p. None)\<rparr>) c
            = Undefined" for f c
    by (simp add: read_process_def read_pid_stat_def isdigit_def Let_def)
  have rs: "fst (cpup_read_stat (stat_file fs) (snapshot [])) = SUCCESS"
    by (simp add: fs_def example_procfs_def cpup_read_stat_def read_stat_times_def snapshot_def
        scan_eval case_prod_beta)
  have "cpup_read qsort fs (snapshot []) = Undefined"
  proof (cases "cpup_read_stat (stat_file fs) (snapshot [])")
    case (Pair r c)
    with rs have "r = SUCCESS" by simp
    with Pair show ?thesis by (simp add: cpup_read_def fs_def rp)
  qed
  then have m: "cpup_main qsort rnd (snapshot []) (snapshot []) [fs] = ([], Killed)"
    by (simp add: cpup_main_def)
  have b: "read_process qsort \<lparr>stat_file = s, proc_dir = Some [''42''],
             pid_stat_file = (\<lambda>p. None)\<rparr> c = Undefined" for c
    using rp [of "\<lparr>stat_file = s, proc_dir = None, pid_stat_file = (\<lambda>p. None)\<rparr>" c] by simp
  have c: "cpup_read qsort \<lparr>stat_file = s, proc_dir = Some [''42''],
             pid_stat_file = (\<lambda>p. None)\<rparr> cpu \<noteq> Returns (SUCCESS, cpu')"
  proof (cases "cpup_read_stat s cpu")
    case (Pair r0 c0)
    then show ?thesis by (cases r0) (simp_all add: cpup_read_def b)
  qed
  from a m b c show ?thesis by (simp add: fs_def)
qed

lemma short_record_skipped:
  "read_process insertion_qsort
     \<lparr>stat_file = None, proc_dir = Some [''30'', ''8'', ''7''],
      pid_stat_file = (\<lambda>p. if p = 8 then Some ''8 (gone) Z 1 8 8 0
''
                            else pid_stat_file example_procfs p)\<rparr> (snapshot [])
   = Returns (SUCCESS, snapshot example_processes)"
proof -
  have 8: "read_pid_stat (\<lambda>p. if p = 8 then Some ''8 (gone) Z 1 8 8 0
'' else pid_stat_file example_procfs p) 8 = Returns (FAILURE, zero_process\<lparr>pid := 8, comm := ''gone'', state := CHR ''Z''\<rparr>)"
    by (simp add: read_pid_stat_def scan_eval)
  have 30: "read_pid_stat (\<lambda>p. if p = 8 then Some ''8 (gone) Z 1 8 8 0
'' else pid_stat_file example_procfs p) 30 = read_pid_stat (pid_stat_file example_procfs) 30"
    by (simp add: read_pid_stat_def)
  have 7: "read_pid_stat (\<lambda>p. if p = 8 then Some ''8 (gone) Z 1 8 8 0
'' else pid_stat_file example_procfs p) 7 = read_pid_stat (pid_stat_file example_procfs) 7"
    by (simp add: read_pid_stat_def)
  show ?thesis
    using 8 30 7 example_stat_30 example_stat_7
    by (simp add: read_process_def Let_def snapshot_def example_processes_def
        insertion_qsort_def comp_pid_def atoi_def isdigit_def decimal_def digit_val_def)
qed

end
